theory Spec2Isabelle
  imports Main
begin

section \<open>Values of the JavaScript runtime\<close>

text \<open>
  \<^verbatim>\<open>JSON.parse\<close> returns an untyped value; the annotation \<^verbatim>\<open>Innovation[]\<close> on
  line 53 of \<^verbatim>\<open>src/index.tsx\<close> is erased at run time. The model therefore keeps the
  values the code can really hold: the JSON values, and \<^verbatim>\<open>undefined\<close> (what reading a
  missing property gives). An object is the association list of its own properties;
  \<open>map_of\<close> reads the first binding of a key. The payload of a number is never
  inspected by the code.
\<close>

datatype js =
    Undefined
  | JNull
  | JBool bool
  | JNum int
  | JStr string
  | JArr "js list"
  | JObj "(string \<times> js) list"

text \<open>What the \<^verbatim>\<open>try\<close> block of \<^verbatim>\<open>fetchInnovations\<close> can throw, by origin.\<close>

datatype js_error =
    Config_error    \<comment> \<open>\<^verbatim>\<open>new GoogleGenAI\<close> throws (missing credential)\<close>
  | Service_error   \<comment> \<open>a request to the generative service is rejected\<close>
  | Syntax_error    \<comment> \<open>\<^verbatim>\<open>JSON.parse\<close> throws\<close>
  | Type_error      \<comment> \<open>a property of null or undefined is read, or a non-function is called\<close>

text \<open>A settled promise.\<close>

datatype 'a settled = Rejected js_error | Fulfilled 'a

text \<open>The three properties the pipeline reads from an idea (lines 60, 68, 69).\<close>

datatype field = Title | Description | Image_prompt

fun field_name :: "field \<Rightarrow> string" where
  "field_name Title = ''title''"
| "field_name Description = ''description''"
| "field_name Image_prompt = ''image_prompt''"

text \<open>
  \<^verbatim>\<open>idea.title\<close>, \<^verbatim>\<open>idea.description\<close>, \<^verbatim>\<open>idea.image_prompt\<close>: reading a property of
  \<^verbatim>\<open>null\<close> or \<^verbatim>\<open>undefined\<close> throws a TypeError; an object gives its own property or
  \<^verbatim>\<open>undefined\<close>; a boolean, a number, a string and an array have no property of these
  three names, and give \<^verbatim>\<open>undefined\<close>.
\<close>

fun get_field :: "js \<Rightarrow> field \<Rightarrow> js_error + js" where
  "get_field Undefined f = Inl Type_error"
| "get_field JNull f = Inl Type_error"
| "get_field (JObj props) f =
     Inr (case map_of props (field_name f) of None \<Rightarrow> Undefined | Some v \<Rightarrow> v)"
| "get_field v f = Inr Undefined"

section \<open>Data model\<close>

text \<open>
  \<^verbatim>\<open>interface InnovationWithImage\<close> (lines 16 to 18). The fields \<open>title\<close> and
  \<open>description\<close> are copied from the parsed idea unchecked, so they hold whatever value
  the idea has there.
\<close>

record InnovationWithImage =
  title :: js
  description :: js
  imageUrl :: string

text \<open>
  The response of \<^verbatim>\<open>ai.models.generateImages\<close>, as far as line 64 reads it:
  \<^verbatim>\<open>imageResponse.generatedImages[0].image.imageBytes\<close>. The SDK declares each of the
  three properties optional.
\<close>

record Image =
  imageBytes :: "string option"

record GeneratedImage =
  gi_image :: "Image option"

record GenerateImagesResponse =
  generatedImages :: "GeneratedImage list option"

text \<open>The four \<^verbatim>\<open>useState\<close> cells of \<^verbatim>\<open>App\<close> (lines 21 to 24).\<close>

record app_state =
  innovations :: "InnovationWithImage list"
  loading :: bool
  error :: "string option"
  selectedInnovation :: "InnovationWithImage option"

definition initial_state :: app_state where
  "initial_state =
     \<lparr>innovations = [], loading = True, error = None, selectedInnovation = None\<rparr>"

section \<open>What one invocation observes of the outside\<close>

text \<open>
  Everything one run of \<^verbatim>\<open>fetchInnovations\<close> gets from outside the program:
  whether the client constructor throws, how the text request settles (the \<^verbatim>\<open>text\<close>
  property of the response may be \<^verbatim>\<open>undefined\<close>), the runtime's \<^verbatim>\<open>JSON.parse\<close> (\<open>None\<close>
  where it throws), how the image request of the \<open>i\<close>-th callback settles for the prompt
  it is given, and the order in which the image requests complete.
\<close>

record world =
  new_GoogleGenAI :: "js_error option"
  generateContent :: "string option settled"
  JSON_parse :: "string \<Rightarrow> js option"
  generateImages :: "nat \<Rightarrow> js \<Rightarrow> GenerateImagesResponse settled"
  completion_order :: "nat list"

section \<open>The pipeline (lines 26 to 82)\<close>

text \<open>
  \<^verbatim>\<open>Promise.all\<close>: every input promise has a slot at its own index. A fulfilment
  stores its value in its slot, and the result is fulfilled with the slots once all are
  filled; the first rejection to arrive rejects the result. \<open>None\<close> is a result that
  has not settled when the listed settlements are exhausted. An empty input is
  fulfilled at once.
\<close>

fun promise_all_loop ::
  "'a settled list \<Rightarrow> nat list \<Rightarrow> 'a option list \<Rightarrow> (js_error + 'a list) option" where
  "promise_all_loop ps [] slots = None"
| "promise_all_loop ps (i # order) slots =
     (if i < length ps then
        (case ps ! i of
           Rejected e \<Rightarrow> Some (Inl e)
         | Fulfilled v \<Rightarrow>
             (let slots' = slots[i := Some v] in
              if list_all (\<lambda>x. x \<noteq> None) slots' then Some (Inr (map the slots'))
              else promise_all_loop ps order slots'))
      else promise_all_loop ps order slots)"

definition promise_all :: "'a settled list \<Rightarrow> nat list \<Rightarrow> (js_error + 'a list) option" where
  "promise_all ps order =
     (if ps = [] then Some (Inr [])
      else promise_all_loop ps order (replicate (length ps) None))"

text \<open>The template literal of line 65; \<^verbatim>\<open>undefined\<close> is printed as its name.\<close>

definition data_url :: "string option \<Rightarrow> string" where
  "data_url b =
     ''data:image/jpeg;base64,'' @ (case b of None \<Rightarrow> ''undefined'' | Some s \<Rightarrow> s)"

text \<open>Line 64: each of the three property reads throws on \<^verbatim>\<open>undefined\<close>.\<close>

definition first_imageBytes :: "GenerateImagesResponse \<Rightarrow> js_error + string option" where
  "first_imageBytes r =
     (case generatedImages r of
        None \<Rightarrow> Inl Type_error
      | Some [] \<Rightarrow> Inl Type_error
      | Some (g # _) \<Rightarrow>
          (case gi_image g of None \<Rightarrow> Inl Type_error | Some im \<Rightarrow> Inr (imageBytes im)))"

text \<open>
  The async callback of lines 57 to 72, run for the idea at index \<open>i\<close>: the promise it
  returns. A throw inside it rejects that promise.
\<close>

definition idea_callback :: "world \<Rightarrow> nat \<Rightarrow> js \<Rightarrow> InnovationWithImage settled" where
  "idea_callback w i idea =
     (case get_field idea Image_prompt of
        Inl e \<Rightarrow> Rejected e
      | Inr prompt \<Rightarrow>
          (case generateImages w i prompt of
             Rejected e \<Rightarrow> Rejected e
           | Fulfilled imageResponse \<Rightarrow>
               (case first_imageBytes imageResponse of
                  Inl e \<Rightarrow> Rejected e
                | Inr base64ImageBytes \<Rightarrow>
                    (case get_field idea Title of
                       Inl e \<Rightarrow> Rejected e
                     | Inr t \<Rightarrow>
                         (case get_field idea Description of
                            Inl e \<Rightarrow> Rejected e
                          | Inr d \<Rightarrow>
                              Fulfilled \<lparr>title = t, description = d,
                                         imageUrl = data_url base64ImageBytes\<rparr>)))))"

text \<open>
  \<^verbatim>\<open>innovationIdeas.map(...)\<close> of line 57: only an array has a callable \<^verbatim>\<open>map\<close>; on
  any other parsed value the call throws a TypeError.
\<close>

definition ideas_map :: "js \<Rightarrow> (nat \<Rightarrow> js \<Rightarrow> 'a) \<Rightarrow> js_error + 'a list" where
  "ideas_map v f =
     (case v of
        JArr ideas \<Rightarrow> Inr (map (\<lambda>i. f i (ideas ! i)) [0..<length ideas])
      | _ \<Rightarrow> Inl Type_error)"

text \<open>
  Step 1, lines 30 to 53: the client, the text request and \<^verbatim>\<open>JSON.parse\<close> of its
  \<^verbatim>\<open>text\<close>. \<^verbatim>\<open>JSON.parse\<close> converts its argument to a string first.
\<close>

definition step1 :: "world \<Rightarrow> js_error + js" where
  "step1 w =
     (case new_GoogleGenAI w of
        Some e \<Rightarrow> Inl e
      | None \<Rightarrow>
          (case generateContent w of
             Rejected e \<Rightarrow> Inl e
           | Fulfilled text \<Rightarrow>
               (case JSON_parse w (case text of None \<Rightarrow> ''undefined'' | Some t \<Rightarrow> t) of
                  None \<Rightarrow> Inl Syntax_error
                | Some innovationIdeas \<Rightarrow> Inr innovationIdeas)))"

text \<open>
  A callback that cannot read \<^verbatim>\<open>idea.image_prompt\<close> (line 60) throws before it issues
  its request: the promise it returns is rejected already when \<^verbatim>\<open>Promise.all\<close>
  subscribes to it, and \<^verbatim>\<open>Promise.all\<close> hears of it before any request completes. The
  indices of these callbacks, in the order of the array:
\<close>

definition settled_at_once :: "js \<Rightarrow> nat list" where
  "settled_at_once innovationIdeas =
     (case innovationIdeas of
        JArr ideas \<Rightarrow>
          filter (\<lambda>i. isl (get_field (ideas ! i) Image_prompt)) [0..<length ideas]
      | _ \<Rightarrow> [])"

text \<open>
  The order in which \<^verbatim>\<open>Promise.all\<close> hears of its promises: first those rejected at
  once, then the others as their image requests complete.
\<close>

definition settlement_order :: "world \<Rightarrow> js \<Rightarrow> nat list" where
  "settlement_order w innovationIdeas = settled_at_once innovationIdeas @ completion_order w"

text \<open>Step 2 and the merge, lines 56 to 73.\<close>

definition step2 :: "world \<Rightarrow> js \<Rightarrow> (js_error + InnovationWithImage list) option" where
  "step2 w innovationIdeas =
     (case ideas_map innovationIdeas (idea_callback w) of
        Inl e \<Rightarrow> Some (Inl e)
      | Inr promises \<Rightarrow> promise_all promises (settlement_order w innovationIdeas))"

text \<open>
  The body of the \<^verbatim>\<open>try\<close> block up to line 73: \<open>Some (Inr items)\<close> when it reaches
  line 75 with \<open>items\<close>, \<open>Some (Inl e)\<close> when it throws \<open>e\<close>, \<open>None\<close> when it
  never settles.
\<close>

definition try_block :: "world \<Rightarrow> (js_error + InnovationWithImage list) option" where
  "try_block w =
     (case step1 w of
        Inl e \<Rightarrow> Some (Inl e)
      | Inr innovationIdeas \<Rightarrow> step2 w innovationIdeas)"

definition error_message :: string where
  "error_message = ''Failed to fetch innovations from the future. Please try again.''"

text \<open>Lines 27 and 28: what \<^verbatim>\<open>fetchInnovations\<close> does before its first \<^verbatim>\<open>await\<close>.\<close>

definition fetchInnovations_begin :: "app_state \<Rightarrow> app_state" where
  "fetchInnovations_begin s = s\<lparr>loading := True, error := None\<rparr>"

text \<open>
  Lines 75 to 81: what it does once the \<^verbatim>\<open>try\<close> block has settled with \<open>r\<close>: line 75
  or the \<^verbatim>\<open>catch\<close> handler, then \<^verbatim>\<open>finally\<close>.
\<close>

definition fetchInnovations_end ::
  "js_error + InnovationWithImage list \<Rightarrow> app_state \<Rightarrow> app_state" where
  "fetchInnovations_end r s =
     (case r of
        Inr innovationsWithImages \<Rightarrow>
          s\<lparr>innovations := innovationsWithImages, loading := False\<rparr>
      | Inl err \<Rightarrow> s\<lparr>error := Some error_message, loading := False\<rparr>)"

text \<open>Lines 88 to 91, up to the first \<^verbatim>\<open>await\<close> of the invocation it starts.\<close>

definition handleRegenerate :: "app_state \<Rightarrow> app_state" where
  "handleRegenerate s = fetchInnovations_begin (s\<lparr>innovations := []\<rparr>)"

text \<open>Lines 93 to 99.\<close>

definition handleOpenModal :: "InnovationWithImage \<Rightarrow> app_state \<Rightarrow> app_state" where
  "handleOpenModal innovation s = s\<lparr>selectedInnovation := Some innovation\<rparr>"

definition handleCloseModal :: "app_state \<Rightarrow> app_state" where
  "handleCloseModal s = s\<lparr>selectedInnovation := None\<rparr>"

section \<open>The view (lines 101 to 190) as a transition system\<close>

text \<open>
  The conditional rendering of lines 110 to 128: the grid of cards is rendered when
  \<open>loading\<close> is false and \<open>error\<close> is falsy (\<^verbatim>\<open>null\<close> or the empty string).
\<close>

definition truthy :: "string option \<Rightarrow> bool" where
  "truthy e = (case e of None \<Rightarrow> False | Some m \<Rightarrow> m \<noteq> [])"

definition card_rendered :: "app_state \<Rightarrow> nat \<Rightarrow> bool" where
  "card_rendered s i = (\<not> loading s \<and> \<not> truthy (error s) \<and> i < length (innovations s))"

text \<open>Line 130: the modal is rendered when \<open>selectedInnovation\<close> is not \<^verbatim>\<open>null\<close>.\<close>

definition modal_rendered :: "app_state \<Rightarrow> bool" where
  "modal_rendered s = (selectedInnovation s \<noteq> None)"

text \<open>
  A native \<^verbatim>\<open>keydown\<close> event, as far as it is read: its properties \<^verbatim>\<open>key\<close> (the empty
  string also where a browser gives none) and \<^verbatim>\<open>keyCode\<close>.
\<close>

record KeyboardEvent =
  ev_key :: string
  ev_keyCode :: nat

text \<open>
  The handler of line 146 is given React's synthetic event, whose \<^verbatim>\<open>key\<close> React
  computes from the native event (\<^verbatim>\<open>getEventKey\<close> of react-dom, for a \<^verbatim>\<open>keydown\<close>): the
  native \<^verbatim>\<open>key\<close> with some old names normalised, or, where the native \<^verbatim>\<open>key\<close> is missing
  or unidentified, the name of the \<^verbatim>\<open>keyCode\<close>. The listener of line 172 is attached to
  \<^verbatim>\<open>window\<close> directly and reads the native \<^verbatim>\<open>key\<close>.
\<close>

definition normalizeKey :: "(string \<times> string) list" where
  "normalizeKey =
     [(''Esc'', ''Escape''), (''Spacebar'', '' ''), (''Left'', ''ArrowLeft''),
      (''Up'', ''ArrowUp''), (''Right'', ''ArrowRight''), (''Down'', ''ArrowDown''),
      (''Del'', ''Delete''), (''Win'', ''OS''), (''Menu'', ''ContextMenu''),
      (''Apps'', ''ContextMenu''), (''Scroll'', ''ScrollLock''),
      (''MozPrintableKey'', ''Unidentified'')]"

definition translateToKey :: "(nat \<times> string) list" where
  "translateToKey =
     [(8, ''Backspace''), (9, ''Tab''), (12, ''Clear''), (13, ''Enter''), (16, ''Shift''),
      (17, ''Control''), (18, ''Alt''), (19, ''Pause''), (20, ''CapsLock''),
      (27, ''Escape''), (32, '' ''), (33, ''PageUp''), (34, ''PageDown''), (35, ''End''),
      (36, ''Home''), (37, ''ArrowLeft''), (38, ''ArrowUp''), (39, ''ArrowRight''),
      (40, ''ArrowDown''), (45, ''Insert''), (46, ''Delete''), (112, ''F1''), (113, ''F2''),
      (114, ''F3''), (115, ''F4''), (116, ''F5''), (117, ''F6''), (118, ''F7''),
      (119, ''F8''), (120, ''F9''), (121, ''F10''), (122, ''F11''), (123, ''F12''),
      (144, ''NumLock''), (145, ''ScrollLock''), (224, ''Meta'')]"

definition getEventKey :: "KeyboardEvent \<Rightarrow> string" where
  "getEventKey nativeEvent =
     (let key = (case map_of normalizeKey (ev_key nativeEvent) of
                   None \<Rightarrow> ev_key nativeEvent
                 | Some k \<Rightarrow> k)
      in if ev_key nativeEvent \<noteq> [] \<and> key \<noteq> ''Unidentified'' then key
         else (case map_of translateToKey (ev_keyCode nativeEvent) of
                 None \<Rightarrow> ''Unidentified''
               | Some k \<Rightarrow> k))"

text \<open>
  Line 146, the \<^verbatim>\<open>onKeyDown\<close> of the card showing \<open>item\<close>; \<open>key\<close> is the
  \<^verbatim>\<open>key\<close> of the synthetic event.
\<close>

definition card_onKeyDown :: "string \<Rightarrow> InnovationWithImage \<Rightarrow> app_state \<Rightarrow> app_state" where
  "card_onKeyDown key item s =
     (if key = ''Enter'' \<or> key = '' '' then handleOpenModal item s else s)"

text \<open>
  Lines 167 to 171, the listener the modal keeps on \<^verbatim>\<open>window\<close> while it is rendered;
  \<open>key\<close> is the \<^verbatim>\<open>key\<close> of the native event.
\<close>

definition handleKeyDown :: "string \<Rightarrow> app_state \<Rightarrow> app_state" where
  "handleKeyDown key s = (if key = ''Escape'' then handleCloseModal s else s)"

text \<open>
  The state of the running page: the React state, whether the mount effect of lines 84
  to 86 has run, and the invocations of \<^verbatim>\<open>fetchInnovations\<close> that have started and not
  settled, each named by the number of invocations started before it.
\<close>

record sys =
  app :: app_state
  mounted :: bool
  next_id :: nat
  pending :: "nat list"

definition initial_sys :: sys where
  "initial_sys = \<lparr>app = initial_state, mounted = False, next_id = 0, pending = []\<rparr>"

text \<open>Where a \<^verbatim>\<open>keydown\<close> is dispatched: on the card at an index, or anywhere else.\<close>

datatype target = Card nat | Elsewhere

datatype event =
    Mount                   \<comment> \<open>the effect of lines 84 to 86\<close>
  | Settle nat world        \<comment> \<open>an invocation settles, having observed this world\<close>
  | Click_regenerate        \<comment> \<open>line 105\<close>
  | Click_card nat          \<comment> \<open>line 145\<close>
  | Keydown target KeyboardEvent   \<comment> \<open>lines 146 and 172\<close>
  | Click_overlay           \<comment> \<open>line 179\<close>
  | Click_modal_content     \<comment> \<open>line 180\<close>
  | Click_close_button      \<comment> \<open>line 181\<close>

text \<open>A handler that calls \<^verbatim>\<open>fetchInnovations\<close> starts a new invocation.\<close>

definition start_invocation :: "(app_state \<Rightarrow> app_state) \<Rightarrow> sys \<Rightarrow> sys" where
  "start_invocation h s =
     s\<lparr>app := h (app s), next_id := Suc (next_id s), pending := pending s @ [next_id s]\<rparr>"

text \<open>
  One event. \<open>None\<close>: the page cannot receive the event in this state (the effect has
  run already, the button is disabled, the element is not rendered, the invocation is
  not in flight or does not settle). A \<^verbatim>\<open>keydown\<close> on a card runs the card's handler and
  then bubbles to \<^verbatim>\<open>window\<close>, where the modal's listener runs if the modal was rendered.
  A click on the close button bubbles to the modal content, which stops it (line 180),
  so that \<^verbatim>\<open>onClose\<close> runs once.
\<close>

fun step :: "sys \<Rightarrow> event \<Rightarrow> sys option" where
  "step s Mount =
     (if mounted s then None
      else Some (start_invocation fetchInnovations_begin (s\<lparr>mounted := True\<rparr>)))"
| "step s (Settle k w) =
     (if k \<in> set (pending s) then
        (case try_block w of
           None \<Rightarrow> None
         | Some r \<Rightarrow>
             Some (s\<lparr>app := fetchInnovations_end r (app s),
                     pending := removeAll k (pending s)\<rparr>))
      else None)"
| "step s Click_regenerate =
     (if loading (app s) then None else Some (start_invocation handleRegenerate s))"
| "step s (Click_card i) =
     (if card_rendered (app s) i
      then Some (s\<lparr>app := handleOpenModal (innovations (app s) ! i) (app s)\<rparr>)
      else None)"
| "step s (Keydown (Card i) ev) =
     (if card_rendered (app s) i then
        (let a = card_onKeyDown (getEventKey ev) (innovations (app s) ! i) (app s)
         in Some (s\<lparr>app := (if modal_rendered (app s) then handleKeyDown (ev_key ev) a
                               else a)\<rparr>))
      else None)"
| "step s (Keydown Elsewhere ev) =
     Some (s\<lparr>app := (if modal_rendered (app s) then handleKeyDown (ev_key ev) (app s)
                       else app s)\<rparr>)"
| "step s Click_overlay =
     (if modal_rendered (app s) then Some (s\<lparr>app := handleCloseModal (app s)\<rparr>) else None)"
| "step s Click_modal_content =
     (if modal_rendered (app s) then Some s else None)"
| "step s Click_close_button =
     (if modal_rendered (app s) then Some (s\<lparr>app := handleCloseModal (app s)\<rparr>) else None)"

text \<open>A sequence of events, from the left.\<close>

fun run :: "sys \<Rightarrow> event list \<Rightarrow> sys option" where
  "run s [] = Some s"
| "run s (e # es) = (case step s e of None \<Rightarrow> None | Some s' \<Rightarrow> run s' es)"

inductive reachable :: "sys \<Rightarrow> bool" where
  reachable_initial: "reachable initial_sys"
| reachable_step: "reachable s \<Longrightarrow> step s e = Some s' \<Longrightarrow> reachable s'"

section \<open>Auxiliary notions\<close>

text \<open>
  The slots of \<open>promise_all_loop\<close> agree with the promises: there is one slot for each
  promise, and a filled slot holds the value its promise was fulfilled with.
\<close>

definition slots_agree :: "'a settled list \<Rightarrow> 'a option list \<Rightarrow> bool" where
  "slots_agree ps slots =
     (length slots = length ps \<and> (\<forall>j<length ps. \<forall>v. slots ! j = Some v \<longrightarrow> ps ! j = Fulfilled v))"

text \<open>
  The image request of the callback at index \<open>i\<close> yields an image: the prompt can be
  read, the request is fulfilled, and the response has a first generated image.
\<close>

definition image_generated :: "world \<Rightarrow> nat \<Rightarrow> js \<Rightarrow> bool" where
  "image_generated w i idea =
     (case get_field idea Image_prompt of
        Inl e \<Rightarrow> False
      | Inr prompt \<Rightarrow>
          (case generateImages w i prompt of
             Rejected e \<Rightarrow> False
           | Fulfilled imageResponse \<Rightarrow>
               (case first_imageBytes imageResponse of Inl e \<Rightarrow> False | Inr b \<Rightarrow> True)))"

text \<open>
  The schema in the words of the specification: an array of objects, each with string
  fields \<^verbatim>\<open>title\<close>, \<^verbatim>\<open>description\<close> and \<^verbatim>\<open>image_prompt\<close>.
\<close>

definition has_string :: "js \<Rightarrow> field \<Rightarrow> bool" where
  "has_string v f =
     (case v of
        JObj props \<Rightarrow> (case map_of props (field_name f) of Some (JStr s) \<Rightarrow> True | _ \<Rightarrow> False)
      | _ \<Rightarrow> False)"

definition matches_schema :: "js \<Rightarrow> bool" where
  "matches_schema v =
     (case v of
        JArr xs \<Rightarrow>
          list_all (\<lambda>x. has_string x Title \<and> has_string x Description \<and> has_string x Image_prompt) xs
      | _ \<Rightarrow> False)"

text \<open>
  What holds of every state the page can reach: at most one invocation is in flight,
  and it is the one started last; \<open>loading\<close> is true while one is in flight; while
  \<open>loading\<close> is true there are no items and no error; an error excludes items; before
  the mount effect nothing is in flight and \<open>loading\<close> is true.
\<close>

definition view_invariant :: "sys \<Rightarrow> bool" where
  "view_invariant s =
     ((pending s = [] \<or> pending s = [next_id s - 1] \<and> 0 < next_id s) \<and>
      (pending s \<noteq> [] \<longrightarrow> loading (app s)) \<and>
      (loading (app s) \<longrightarrow> innovations (app s) = [] \<and> error (app s) = None) \<and>
      (error (app s) \<noteq> None \<longrightarrow> innovations (app s) = []) \<and>
      (\<not> mounted s \<longrightarrow> pending s = [] \<and> loading (app s)))"

subsection \<open>Concrete inputs\<close>

text \<open>
  A world in which the client is constructed, the text request is fulfilled with a body
  that parses to \<open>v\<close>, the image requests settle as \<open>img\<close> says and the promises
  settle in the order \<open>order\<close>.
\<close>

definition image_ok :: "string \<Rightarrow> GenerateImagesResponse settled" where
  "image_ok b = Fulfilled \<lparr>generatedImages = Some [\<lparr>gi_image = Some \<lparr>imageBytes = Some b\<rparr>\<rparr>]\<rparr>"

definition example_world ::
  "js \<Rightarrow> (nat \<Rightarrow> js \<Rightarrow> GenerateImagesResponse settled) \<Rightarrow> nat list \<Rightarrow> world" where
  "example_world v img order =
     \<lparr>new_GoogleGenAI = None,
      generateContent = Fulfilled (Some ''body''),
      JSON_parse = (\<lambda>t. if t = ''body'' then Some v else None),
      generateImages = img,
      completion_order = order\<rparr>"

definition idea_sky :: js where
  "idea_sky = JObj [(''title'', JStr ''Sky farm''), (''description'', JStr ''Crops in towers.''),
                    (''image_prompt'', JStr ''a tower of crops'')]"

definition idea_reef :: js where
  "idea_reef = JObj [(''title'', JStr ''Reef printer''), (''description'', JStr ''Corals on demand.''),
                     (''image_prompt'', JStr ''a printed reef'')]"

definition idea_partial :: js where
  "idea_partial = JObj [(''title'', JStr ''Sky farm''), (''image_prompt'', JStr ''a tower of crops'')]"

definition by_index :: "nat \<Rightarrow> js \<Rightarrow> GenerateImagesResponse settled" where
  "by_index i prompt = image_ok (if i = 0 then ''AAAA'' else ''BBBB'')"

definition item_sky :: InnovationWithImage where
  "item_sky = \<lparr>title = JStr ''Sky farm'', description = JStr ''Crops in towers.'',
               imageUrl = ''data:image/jpeg;base64,AAAA''\<rparr>"

definition item_reef :: InnovationWithImage where
  "item_reef = \<lparr>title = JStr ''Reef printer'', description = JStr ''Corals on demand.'',
                imageUrl = ''data:image/jpeg;base64,BBBB''\<rparr>"

text \<open>
  Two complete ideas whose image requests complete in reverse order, and the state of
  the page once the invocation started at mount has settled in that world.
\<close>

definition two_ideas_world :: world where
  "two_ideas_world = example_world (JArr [idea_sky, idea_reef]) by_index [1, 0]"

definition loaded_sys :: sys where
  "loaded_sys =
     \<lparr>app = \<lparr>innovations = [item_sky, item_reef], loading = False, error = None,
              selectedInnovation = None\<rparr>,
      mounted = True, next_id = 1, pending = []\<rparr>"

text \<open>The state of the page after the mount effect, while its invocation is in flight.\<close>

definition mounted_sys :: sys where
  "mounted_sys =
     \<lparr>app = \<lparr>innovations = [], loading = True, error = None, selectedInnovation = None\<rparr>,
      mounted = True, next_id = 1, pending = [0]\<rparr>"

text \<open>The state of the page after an invocation started at mount has failed.\<close>

definition failed_sys :: sys where
  "failed_sys =
     \<lparr>app = \<lparr>innovations = [], loading = False, error = Some error_message,
              selectedInnovation = None\<rparr>,
      mounted = True, next_id = 1, pending = []\<rparr>"

text \<open>Two complete ideas; the image request of the second one is rejected.\<close>

definition second_image_fails :: world where
  "second_image_fails =
     example_world (JArr [idea_sky, idea_reef])
       (\<lambda>i prompt. if i = 1 then Rejected Service_error else by_index i prompt) [0, 1]"

text \<open>The same, with the second request rejected while the first is still pending.\<close>

definition second_fails_first_pending :: world where
  "second_fails_first_pending =
     example_world (JArr [idea_sky, idea_reef])
       (\<lambda>i prompt. if i = 1 then Rejected Service_error else by_index i prompt) [1]"

text \<open>
  One idea without the required \<^verbatim>\<open>description\<close>, its image generated; and the item the
  pipeline makes of it.
\<close>

definition partial_idea_world :: world where
  "partial_idea_world = example_world (JArr [idea_partial]) by_index [0]"

definition item_partial :: InnovationWithImage where
  "item_partial = \<lparr>title = JStr ''Sky farm'', description = Undefined,
                   imageUrl = ''data:image/jpeg;base64,AAAA''\<rparr>"

text \<open>A body that is not JSON, one that parses to an object, one with a null element.\<close>

definition not_json_world :: world where
  "not_json_world =
     \<lparr>new_GoogleGenAI = None, generateContent = Fulfilled (Some ''Here are 6 ideas''),
      JSON_parse = (\<lambda>t. if t = ''[]'' then Some (JArr []) else None),
      generateImages = by_index, completion_order = []\<rparr>"

definition object_world :: world where
  "object_world = example_world (JObj [(''ideas'', JArr [idea_sky])]) by_index []"

definition null_element_world :: world where
  "null_element_world = example_world (JArr [idea_sky, JNull]) by_index []"

text \<open>
  Worlds that fail in Step 1: the client constructor throws for want of a credential;
  the text request is rejected.
\<close>

definition no_credential_world :: world where
  "no_credential_world =
     (example_world (JArr [idea_sky]) by_index [0])\<lparr>new_GoogleGenAI := Some Config_error\<rparr>"

definition text_rejected_world :: world where
  "text_rejected_world =
     (example_world (JArr [idea_sky]) by_index [0])\<lparr>generateContent := Rejected Service_error\<rparr>"

text \<open>An empty array of ideas, and the page once the invocation of the mount has settled.\<close>

definition no_ideas_world :: world where
  "no_ideas_world = example_world (JArr []) by_index []"

definition empty_gallery_sys :: sys where
  "empty_gallery_sys =
     \<lparr>app = \<lparr>innovations = [], loading = False, error = None, selectedInnovation = None\<rparr>,
      mounted = True, next_id = 1, pending = []\<rparr>"

text \<open>The loaded page with the modal open on the second card.\<close>

definition modal_sys :: sys where
  "modal_sys =
     \<lparr>app = \<lparr>innovations = [item_sky, item_reef], loading = False, error = None,
              selectedInnovation = Some item_reef\<rparr>,
      mounted = True, next_id = 1, pending = []\<rparr>"

text \<open>The page after the regenerate button was clicked on the loaded page.\<close>

definition regenerating_sys :: sys where
  "regenerating_sys =
     \<lparr>app = \<lparr>innovations = [], loading = True, error = None, selectedInnovation = None\<rparr>,
      mounted = True, next_id = 2, pending = [1]\<rparr>"

section \<open>Facts about \<^verbatim>\<open>Promise.all\<close>\<close>

lemmas pipeline_defs = try_block_def step1_def step2_def ideas_map_def idea_callback_def
  promise_all_def first_imageBytes_def data_url_def settlement_order_def settled_at_once_def

lemmas example_defs = example_world_def image_ok_def idea_sky_def idea_reef_def idea_partial_def
  by_index_def item_sky_def item_reef_def

lemma slots_agree_update:
  "slots_agree ps slots \<Longrightarrow> i < length ps \<Longrightarrow> ps ! i = Fulfilled v \<Longrightarrow>
   slots_agree ps (slots[i := Some v])"
  by (auto simp: slots_agree_def nth_list_update)

lemma slots_agree_full:
  assumes "slots_agree ps slots" and "list_all (\<lambda>x. x \<noteq> None) slots"
  shows "ps = map Fulfilled (map the slots)"
proof (rule nth_equalityI)
  show "length ps = length (map Fulfilled (map the slots))"
    using assms by (simp add: slots_agree_def)
next
  fix j assume j: "j < length ps"
  with assms have "slots ! j \<noteq> None"
    by (simp add: slots_agree_def list_all_length)
  then obtain v where "slots ! j = Some v" by auto
  with assms j show "ps ! j = map Fulfilled (map the slots) ! j"
    by (simp add: slots_agree_def)
qed

lemma promise_all_loop_fulfilled:
  "slots_agree ps slots \<Longrightarrow> promise_all_loop ps order slots = Some (Inr vs) \<Longrightarrow>
   ps = map Fulfilled vs"
proof (induction order arbitrary: slots)
  case Nil
  then show ?case by simp
next
  case (Cons i order)
  show ?case
  proof (cases "i < length ps")
    case False
    with Cons show ?thesis by simp
  next
    case True
    show ?thesis
    proof (cases "ps ! i")
      case (Rejected e)
      with True Cons.prems show ?thesis by simp
    next
      case (Fulfilled v)
      have agree: "slots_agree ps (slots[i := Some v])"
        using Cons.prems(1) True Fulfilled by (rule slots_agree_update)
      show ?thesis
      proof (cases "list_all (\<lambda>x. x \<noteq> None) (slots[i := Some v])")
        case full: True
        with Cons.prems(2) True Fulfilled have "vs = map the (slots[i := Some v])"
          by simp
        with slots_agree_full [OF agree full] show ?thesis by simp
      next
        case False
        with Cons.prems(2) True Fulfilled
        have "promise_all_loop ps order (slots[i := Some v]) = Some (Inr vs)"
          by simp
        with agree show ?thesis by (rule Cons.IH)
      qed
    qed
  qed
qed

lemma promise_all_loop_rejected:
  "promise_all_loop ps order slots = Some (Inl e) \<Longrightarrow> \<exists>i<length ps. ps ! i = Rejected e"
proof (induction order arbitrary: slots)
  case Nil
  then show ?case by simp
next
  case (Cons i order)
  then show ?case
    by (auto simp: Let_def split: if_splits settled.splits)
qed

lemma promise_all_loop_settles:
  "length slots = length ps \<Longrightarrow> \<not> list_all (\<lambda>x. x \<noteq> None) slots \<Longrightarrow>
   \<forall>j<length ps. slots ! j = None \<longrightarrow> j \<in> set order \<Longrightarrow>
   \<exists>r. promise_all_loop ps order slots = Some r"
proof (induction order arbitrary: slots)
  case Nil
  then show ?case by (auto simp: list_all_length)
next
  case (Cons i order)
  show ?case
  proof (cases "i < length ps")
    case False
    with Cons.prems have "\<forall>j<length ps. slots ! j = None \<longrightarrow> j \<in> set order"
      by auto
    with Cons.IH [OF Cons.prems(1,2)] False show ?thesis by simp
  next
    case True
    show ?thesis
    proof (cases "ps ! i")
      case (Rejected e)
      with True show ?thesis by simp
    next
      case (Fulfilled v)
      show ?thesis
      proof (cases "list_all (\<lambda>x. x \<noteq> None) (slots[i := Some v])")
        case full: True
        with True Fulfilled show ?thesis by simp
      next
        case False
        have "\<forall>j<length ps. slots[i := Some v] ! j = None \<longrightarrow> j \<in> set order"
        proof (intro allI impI)
          fix j assume j: "j < length ps" and n: "slots[i := Some v] ! j = None"
          from n j True Cons.prems(1) have "j \<noteq> i" by auto
          moreover from this n have "slots ! j = None" by simp
          ultimately show "j \<in> set order" using Cons.prems(3) j by auto
        qed
        with Cons.IH [of "slots[i := Some v]"] False Cons.prems(1)
        have "\<exists>r. promise_all_loop ps order (slots[i := Some v]) = Some r"
          by simp
        with True Fulfilled False show ?thesis by simp
      qed
    qed
  qed
qed

lemma slots_agree_rejected:
  assumes "slots_agree ps slots" and "i < length ps" and "ps ! i = Rejected e"
  shows "\<not> list_all (\<lambda>x. x \<noteq> None) slots"
proof
  assume "list_all (\<lambda>x. x \<noteq> None) slots"
  with assms(1,2) obtain v where "slots ! i = Some v"
    by (auto simp: slots_agree_def list_all_length)
  with assms show False by (simp add: slots_agree_def)
qed

text \<open>Fail fast: a rejection that arrives rejects the result, whatever else is pending.\<close>

lemma promise_all_loop_fail_fast:
  "slots_agree ps slots \<Longrightarrow> i < length ps \<Longrightarrow> ps ! i = Rejected e \<Longrightarrow> i \<in> set order \<Longrightarrow>
   \<exists>e'. promise_all_loop ps order slots = Some (Inl e')"
proof (induction order arbitrary: slots)
  case Nil
  then show ?case by simp
next
  case (Cons j order)
  show ?case
  proof (cases "j < length ps")
    case False
    with Cons.prems have "i \<in> set order" by auto
    from Cons.IH [OF Cons.prems(1-3) this] False show ?thesis by simp
  next
    case True
    show ?thesis
    proof (cases "ps ! j")
      case (Rejected e')
      with True show ?thesis by simp
    next
      case (Fulfilled v)
      with Cons.prems have "i \<noteq> j" by auto
      with Cons.prems have in_rest: "i \<in> set order" by auto
      have agree: "slots_agree ps (slots[j := Some v])"
        using Cons.prems(1) True Fulfilled by (rule slots_agree_update)
      from slots_agree_rejected [OF agree Cons.prems(2,3)]
      have "\<not> list_all (\<lambda>x. x \<noteq> None) (slots[j := Some v])" .
      with Cons.IH [OF agree Cons.prems(2,3) in_rest] True Fulfilled show ?thesis by simp
    qed
  qed
qed

lemma promise_all_fail_fast:
  assumes "i < length ps" and "ps ! i = Rejected e" and "i \<in> set order"
  shows "\<exists>e'. promise_all ps order = Some (Inl e')"
proof -
  from assms(1) have ne: "ps \<noteq> []" by auto
  have "slots_agree ps (replicate (length ps) None)"
    by (simp add: slots_agree_def)
  from promise_all_loop_fail_fast [OF this assms] ne show ?thesis
    by (simp add: promise_all_def)
qed

lemma promise_all_first_rejected:
  assumes "i < length ps" and "ps ! i = Rejected e"
  shows "promise_all ps (i # order) = Some (Inl e)"
proof -
  from assms(1) have "ps \<noteq> []" by auto
  with assms show ?thesis by (simp add: promise_all_def)
qed

lemma promise_all_fulfilled:
  "promise_all ps order = Some (Inr vs) \<Longrightarrow> ps = map Fulfilled vs"
proof (cases "ps = []")
  case True
  assume "promise_all ps order = Some (Inr vs)"
  with True show ?thesis by (simp add: promise_all_def)
next
  case False
  assume "promise_all ps order = Some (Inr vs)"
  with False have "promise_all_loop ps order (replicate (length ps) None) = Some (Inr vs)"
    by (simp add: promise_all_def)
  moreover have "slots_agree ps (replicate (length ps) None)"
    by (simp add: slots_agree_def)
  ultimately show ?thesis by (rule promise_all_loop_fulfilled [rotated])
qed

lemma promise_all_rejected:
  "promise_all ps order = Some (Inl e) \<Longrightarrow> \<exists>i<length ps. ps ! i = Rejected e"
  by (cases "ps = []") (auto simp: promise_all_def dest: promise_all_loop_rejected)

lemma promise_all_settles:
  assumes "\<forall>j<length ps. j \<in> set order"
  shows "\<exists>r. promise_all ps order = Some r"
proof (cases "ps = []")
  case True
  then show ?thesis by (simp add: promise_all_def)
next
  case False
  then have "\<not> list_all (\<lambda>x. x \<noteq> None) (replicate (length ps) (None :: 'a option))"
    by (cases ps) (simp_all)
  with assms promise_all_loop_settles [of "replicate (length ps) None" ps order]
  show ?thesis using False by (simp add: promise_all_def)
qed

section \<open>Facts about the pipeline\<close>

lemma get_field_Inr_all:
  "get_field idea f = Inr v \<Longrightarrow> \<exists>v'. get_field idea g = Inr v'"
  by (cases idea) simp_all

lemma idea_callback_Fulfilled:
  assumes "idea_callback w i idea = Fulfilled item"
  shows "get_field idea Title = Inr (title item)"
    and "get_field idea Description = Inr (description item)"
    and "image_generated w i idea"
  using assms
  by (auto simp: idea_callback_def image_generated_def split: sum.splits settled.splits)

lemma image_generated_callback:
  assumes "image_generated w i idea"
  shows "\<exists>item. idea_callback w i idea = Fulfilled item"
proof -
  from assms obtain p where p: "get_field idea Image_prompt = Inr p"
    by (auto simp: image_generated_def split: sum.splits)
  from get_field_Inr_all [OF p] obtain t where t: "get_field idea Title = Inr t" by blast
  from get_field_Inr_all [OF p] obtain d where d: "get_field idea Description = Inr d" by blast
  from assms p t d show ?thesis
    by (auto simp: idea_callback_def image_generated_def split: sum.splits settled.splits)
qed

lemma image_rejected_callback:
  assumes "get_field idea Image_prompt = Inr p" and "generateImages w i p = Rejected e"
  shows "idea_callback w i idea = Rejected e"
  using assms by (simp add: idea_callback_def)

lemma null_idea_callback:
  "idea_callback w i JNull = Rejected Type_error"
  by (simp add: idea_callback_def)

text \<open>What a successful try block tells.\<close>

lemma try_block_Inr:
  assumes "try_block w = Some (Inr items)"
  shows "\<exists>ideas. step1 w = Inr (JArr ideas) \<and>
           map (\<lambda>i. idea_callback w i (ideas ! i)) [0..<length ideas] = map Fulfilled items"
proof -
  from assms obtain v where v: "step1 w = Inr v" and s2: "step2 w v = Some (Inr items)"
    by (auto simp: try_block_def split: sum.splits)
  from s2 obtain ideas where arr: "v = JArr ideas"
    by (cases v) (auto simp: step2_def ideas_map_def)
  from s2 arr have "promise_all (map (\<lambda>i. idea_callback w i (ideas ! i)) [0..<length ideas])
      (settlement_order w (JArr ideas)) = Some (Inr items)"
    by (simp add: step2_def ideas_map_def)
  from promise_all_fulfilled [OF this] v arr show ?thesis by blast
qed

lemma try_block_array:
  assumes "step1 w = Inr (JArr ideas)"
  shows "try_block w = promise_all (map (\<lambda>i. idea_callback w i (ideas ! i)) [0..<length ideas])
      (settlement_order w (JArr ideas))"
  using assms by (simp add: try_block_def step2_def ideas_map_def)

lemma completion_order_settlement:
  "j \<in> set (completion_order w) \<Longrightarrow> j \<in> set (settlement_order w v)"
  by (simp add: settlement_order_def)

lemma null_settled_at_once:
  assumes "i < length ideas" and "ideas ! i = JNull"
  shows "i \<in> set (settled_at_once (JArr ideas))"
  using assms by (simp add: settled_at_once_def)

lemma settled_at_once_rejected:
  assumes "i \<in> set (settled_at_once (JArr ideas))"
  shows "i < length ideas \<and> idea_callback w i (ideas ! i) = Rejected Type_error"
proof -
  from assms have i: "i < length ideas" and l: "isl (get_field (ideas ! i) Image_prompt)"
    by (simp_all add: settled_at_once_def)
  from l have "get_field (ideas ! i) Image_prompt = Inl Type_error"
    by (cases "ideas ! i") simp_all
  with i show ?thesis by (simp add: idea_callback_def)
qed

lemma step1_completion_order [simp]:
  "step1 (w\<lparr>completion_order := order\<rparr>) = step1 w"
  by (simp add: step1_def split: option.splits settled.splits)

lemma idea_callback_completion_order [simp]:
  "idea_callback (w\<lparr>completion_order := order\<rparr>) = idea_callback w"
  by (intro ext) (simp add: idea_callback_def split: sum.splits settled.splits)

section \<open>Facts about the view\<close>

subsection \<open>What each handler leaves alone\<close>

lemma fetchInnovations_begin_fields [simp]:
  "innovations (fetchInnovations_begin a) = innovations a"
  "loading (fetchInnovations_begin a)"
  "error (fetchInnovations_begin a) = None"
  "selectedInnovation (fetchInnovations_begin a) = selectedInnovation a"
  by (simp_all add: fetchInnovations_begin_def)

lemma fetchInnovations_end_fields [simp]:
  "innovations (fetchInnovations_end (Inr items) a) = items"
  "innovations (fetchInnovations_end (Inl e) a) = innovations a"
  "\<not> loading (fetchInnovations_end r a)"
  "error (fetchInnovations_end (Inr items) a) = error a"
  "error (fetchInnovations_end (Inl e) a) = Some error_message"
  "selectedInnovation (fetchInnovations_end r a) = selectedInnovation a"
  by (simp_all add: fetchInnovations_end_def split: sum.splits)

lemma handleRegenerate_fields [simp]:
  "innovations (handleRegenerate a) = []"
  "loading (handleRegenerate a)"
  "error (handleRegenerate a) = None"
  "selectedInnovation (handleRegenerate a) = selectedInnovation a"
  by (simp_all add: handleRegenerate_def fetchInnovations_begin_def)

lemma handleOpenModal_fields [simp]:
  "innovations (handleOpenModal item a) = innovations a"
  "loading (handleOpenModal item a) = loading a"
  "error (handleOpenModal item a) = error a"
  "selectedInnovation (handleOpenModal item a) = Some item"
  by (simp_all add: handleOpenModal_def)

lemma handleCloseModal_fields [simp]:
  "innovations (handleCloseModal a) = innovations a"
  "loading (handleCloseModal a) = loading a"
  "error (handleCloseModal a) = error a"
  "selectedInnovation (handleCloseModal a) = None"
  by (simp_all add: handleCloseModal_def)

lemma card_onKeyDown_fields [simp]:
  "innovations (card_onKeyDown key item a) = innovations a"
  "loading (card_onKeyDown key item a) = loading a"
  "error (card_onKeyDown key item a) = error a"
  by (simp_all add: card_onKeyDown_def)

lemma handleKeyDown_fields [simp]:
  "innovations (handleKeyDown key a) = innovations a"
  "loading (handleKeyDown key a) = loading a"
  "error (handleKeyDown key a) = error a"
  by (simp_all add: handleKeyDown_def)

lemma start_invocation_fields [simp]:
  "app (start_invocation h s) = h (app s)"
  "mounted (start_invocation h s) = mounted s"
  "next_id (start_invocation h s) = Suc (next_id s)"
  "pending (start_invocation h s) = pending s @ [next_id s]"
  by (simp_all add: start_invocation_def)

text \<open>The invariant reads nothing of \<open>selectedInnovation\<close>.\<close>

lemma view_invariant_frame:
  assumes "view_invariant s"
    and "pending s' = pending s" and "next_id s' = next_id s" and "mounted s' = mounted s"
    and "innovations (app s') = innovations (app s)" and "loading (app s') = loading (app s)"
    and "error (app s') = error (app s)"
  shows "view_invariant s'"
  using assms by (simp add: view_invariant_def)

lemma view_invariant_initial: "view_invariant initial_sys"
  by (simp add: view_invariant_def initial_sys_def initial_state_def)

lemma view_invariant_Mount:
  assumes "view_invariant s" and "step s Mount = Some s'"
  shows "view_invariant s'"
proof -
  from assms(2) have m: "\<not> mounted s"
    and s': "s' = start_invocation fetchInnovations_begin (s\<lparr>mounted := True\<rparr>)"
    by (simp_all split: if_splits)
  from assms(1) m have "pending s = []" and "innovations (app s) = []"
    by (simp_all add: view_invariant_def)
  with s' show ?thesis by (simp add: view_invariant_def)
qed

lemma view_invariant_Click_regenerate:
  assumes "view_invariant s" and "step s Click_regenerate = Some s'"
  shows "view_invariant s'"
proof -
  from assms(2) have l: "\<not> loading (app s)" and s': "s' = start_invocation handleRegenerate s"
    by (simp_all split: if_splits)
  from assms(1) l have "pending s = []" and "mounted s"
    by (auto simp: view_invariant_def)
  with s' show ?thesis by (simp add: view_invariant_def)
qed

lemma view_invariant_Settle:
  assumes "view_invariant s" and "step s (Settle k w) = Some s'"
  shows "view_invariant s'"
proof -
  from assms(2) obtain r where k: "k \<in> set (pending s)" and r: "try_block w = Some r"
    and s': "s' = s\<lparr>app := fetchInnovations_end r (app s), pending := removeAll k (pending s)\<rparr>"
    by (auto split: if_splits option.splits)
  from assms(1) k have p: "pending s = [k]" and l: "loading (app s)" and m: "mounted s"
    by (auto simp: view_invariant_def)
  from assms(1) l have e: "innovations (app s) = []" "error (app s) = None"
    by (simp_all add: view_invariant_def)
  show ?thesis
  proof (cases r)
    case (Inl err)
    with s' p e m show ?thesis by (simp add: view_invariant_def)
  next
    case (Inr items)
    with s' p e m show ?thesis by (simp add: view_invariant_def)
  qed
qed

lemma view_invariant_step:
  assumes "view_invariant s" and "step s e = Some s'"
  shows "view_invariant s'"
proof (cases e)
  case Mount
  with assms show ?thesis by (simp only: view_invariant_Mount)
next
  case (Settle k w)
  with assms show ?thesis by (simp only: view_invariant_Settle)
next
  case Click_regenerate
  with assms show ?thesis by (simp only: view_invariant_Click_regenerate)
next
  case (Click_card i)
  with assms(2) have "s' = s\<lparr>app := handleOpenModal (innovations (app s) ! i) (app s)\<rparr>"
    by (simp split: if_splits)
  with assms(1) show ?thesis by (auto intro: view_invariant_frame)
next
  case (Keydown t ev)
  show ?thesis
  proof (cases t)
    case (Card i)
    with Keydown assms(2) have "s' = s\<lparr>app :=
        (if modal_rendered (app s)
         then handleKeyDown (ev_key ev)
                (card_onKeyDown (getEventKey ev) (innovations (app s) ! i) (app s))
         else card_onKeyDown (getEventKey ev) (innovations (app s) ! i) (app s))\<rparr>"
      by (simp add: Let_def split: if_splits)
    with assms(1) show ?thesis by (auto intro: view_invariant_frame)
  next
    case Elsewhere
    with Keydown assms(2) have "s' = s\<lparr>app :=
        (if modal_rendered (app s) then handleKeyDown (ev_key ev) (app s) else app s)\<rparr>"
      by simp
    with assms(1) show ?thesis by (auto intro: view_invariant_frame)
  qed
next
  case Click_overlay
  with assms(2) have "s' = s\<lparr>app := handleCloseModal (app s)\<rparr>"
    by (simp split: if_splits)
  with assms(1) show ?thesis by (auto intro: view_invariant_frame)
next
  case Click_modal_content
  with assms show ?thesis by (simp split: if_splits)
next
  case Click_close_button
  with assms(2) have "s' = s\<lparr>app := handleCloseModal (app s)\<rparr>"
    by (simp split: if_splits)
  with assms(1) show ?thesis by (auto intro: view_invariant_frame)
qed

lemma reachable_view_invariant: "reachable s \<Longrightarrow> view_invariant s"
  by (induction rule: reachable.induct) (auto intro: view_invariant_initial view_invariant_step)

lemma run_reachable: "reachable s \<Longrightarrow> run s es = Some s' \<Longrightarrow> reachable s'"
proof (induction es arbitrary: s)
  case Nil
  then show ?case by simp
next
  case (Cons e es)
  then show ?case
    by (auto split: option.splits intro: reachable_step)
qed

lemma two_ideas_world_result: "try_block two_ideas_world = Some (Inr [item_sky, item_reef])"
  by (simp add: two_ideas_world_def pipeline_defs example_defs)

lemma run_loaded: "run initial_sys [Mount, Settle 0 two_ideas_world] = Some loaded_sys"
  by (simp add: two_ideas_world_result initial_sys_def initial_state_def loaded_sys_def
      start_invocation_def fetchInnovations_begin_def fetchInnovations_end_def)

lemma reachable_loaded: "reachable loaded_sys"
  using run_reachable [OF reachable_initial run_loaded] .

lemma run_mounted: "run initial_sys [Mount] = Some mounted_sys"
  by (simp add: initial_sys_def initial_state_def mounted_sys_def
      start_invocation_def fetchInnovations_begin_def)

lemma reachable_mounted: "reachable mounted_sys"
  using run_reachable [OF reachable_initial run_mounted] .

lemma step_Settle:
  "step s (Settle k w) = Some s' \<longleftrightarrow>
     k \<in> set (pending s) \<and>
     (\<exists>r. try_block w = Some r \<and>
        s' = s\<lparr>app := fetchInnovations_end r (app s), pending := removeAll k (pending s)\<rparr>)"
  by (auto split: option.splits)

lemma rejected_callback_never_succeeds:
  assumes "step1 w = Inr (JArr ideas)" and "i < length ideas"
    and "idea_callback w i (ideas ! i) = Rejected e"
  shows "try_block w \<noteq> Some (Inr items)"
proof
  assume "try_block w = Some (Inr items)"
  from try_block_Inr [OF this] assms(1)
  have eq: "map (\<lambda>i. idea_callback w i (ideas ! i)) [0..<length ideas] = map Fulfilled items"
    by auto
  from arg_cong [OF eq, of length] have len: "length items = length ideas"
    by simp
  from arg_cong [OF eq, of "\<lambda>l. l ! i"] assms(2) len
  have "idea_callback w i (ideas ! i) = Fulfilled (items ! i)"
    by simp
  with assms(3) show False by simp
qed

lemma try_block_settles:
  assumes "step1 w = Inr (JArr ideas)" and "\<forall>j<length ideas. j \<in> set (completion_order w)"
  shows "\<exists>r. try_block w = Some r"
  using assms promise_all_settles
    [of "map (\<lambda>i. idea_callback w i (ideas ! i)) [0..<length ideas]"
      "settlement_order w (JArr ideas)"]
  by (simp add: try_block_array completion_order_settlement)

lemma rejected_callback_fails:
  assumes "step1 w = Inr (JArr ideas)" and "i < length ideas"
    and "idea_callback w i (ideas ! i) = Rejected e"
    and "i \<in> set (settlement_order w (JArr ideas))"
  shows "\<exists>e'. try_block w = Some (Inl e')"
proof -
  let ?ps = "map (\<lambda>i. idea_callback w i (ideas ! i)) [0..<length ideas]"
  from assms(2,3) have "i < length ?ps" and "?ps ! i = Rejected e" by simp_all
  from promise_all_fail_fast [OF this assms(4)] assms(1) show ?thesis
    by (simp add: try_block_array)
qed

lemma null_element_fails:
  assumes "step1 w = Inr (JArr ideas)" and "JNull \<in> set ideas"
  shows "try_block w = Some (Inl Type_error)"
proof -
  let ?ps = "map (\<lambda>i. idea_callback w i (ideas ! i)) [0..<length ideas]"
  from assms(2) obtain i where "i < length ideas" and "ideas ! i = JNull"
    by (auto simp: in_set_conv_nth)
  then have "i \<in> set (settled_at_once (JArr ideas))" by (rule null_settled_at_once)
  then obtain i0 rest where at: "settled_at_once (JArr ideas) = i0 # rest"
    by (cases "settled_at_once (JArr ideas)") auto
  then have "i0 \<in> set (settled_at_once (JArr ideas))" by simp
  from settled_at_once_rejected [OF this, of w]
  have "i0 < length ?ps" and "?ps ! i0 = Rejected Type_error" by simp_all
  from promise_all_first_rejected [OF this, of "rest @ completion_order w"] assms(1) at
  show ?thesis by (simp add: try_block_array settlement_order_def)
qed

lemma second_image_fails_result: "try_block second_image_fails = Some (Inl Service_error)"
  by (simp add: second_image_fails_def pipeline_defs example_defs)

lemma step1_example [simp]: "step1 (example_world v img order) = Inr v"
  by (simp add: step1_def example_world_def)

lemma step1_body:
  assumes "new_GoogleGenAI w = None" and "generateContent w = Fulfilled (Some body)"
  shows "step1 w = (case JSON_parse w body of None \<Rightarrow> Inl Syntax_error | Some v \<Rightarrow> Inr v)"
  using assms by (simp add: step1_def)

lemma try_block_not_array:
  assumes "step1 w = Inr v" and "\<forall>ideas. v \<noteq> JArr ideas"
  shows "try_block w = Some (Inl Type_error)"
  using assms by (cases v) (simp_all add: try_block_def step2_def ideas_map_def)

lemma all_generated_succeeds:
  assumes "step1 w = Inr (JArr ideas)"
    and "\<forall>i<length ideas. image_generated w i (ideas ! i)"
    and "\<forall>j<length ideas. j \<in> set (completion_order w)"
  shows "\<exists>items. try_block w = Some (Inr items) \<and> length items = length ideas"
proof -
  let ?ps = "map (\<lambda>i. idea_callback w i (ideas ! i)) [0..<length ideas]"
  from try_block_settles [OF assms(1,3)] obtain r where r: "try_block w = Some r" by blast
  show ?thesis
  proof (cases r)
    case (Inl e)
    with r assms(1) have "promise_all ?ps (settlement_order w (JArr ideas)) = Some (Inl e)"
      by (simp add: try_block_array)
    from promise_all_rejected [OF this] obtain i where i: "i < length ideas"
      and rej: "idea_callback w i (ideas ! i) = Rejected e" by auto
    from assms(2) i have "image_generated w i (ideas ! i)" by blast
    from image_generated_callback [OF this] rej show ?thesis by auto
  next
    case (Inr items)
    with r have ok: "try_block w = Some (Inr items)" by simp
    from try_block_Inr [OF ok] assms(1) have "?ps = map Fulfilled items" by auto
    from arg_cong [OF this, of length] have "length items = length ideas" by simp
    with ok show ?thesis by blast
  qed
qed

lemma no_credential_world_result: "try_block no_credential_world = Some (Inl Config_error)"
  by (simp add: no_credential_world_def try_block_def step1_def example_world_def)

lemma text_rejected_world_result: "try_block text_rejected_world = Some (Inl Service_error)"
  by (simp add: text_rejected_world_def try_block_def step1_def example_world_def)

lemma not_json_world_result: "try_block not_json_world = Some (Inl Syntax_error)"
  by (simp add: not_json_world_def try_block_def step1_def)

lemma no_ideas_world_result: "try_block no_ideas_world = Some (Inr [])"
  by (simp add: no_ideas_world_def pipeline_defs example_defs)

lemma run_empty_gallery: "run initial_sys [Mount, Settle 0 no_ideas_world] = Some empty_gallery_sys"
  by (simp add: no_ideas_world_result initial_sys_def initial_state_def empty_gallery_sys_def
      start_invocation_def fetchInnovations_begin_def fetchInnovations_end_def)

lemma reachable_empty_gallery: "reachable empty_gallery_sys"
  using run_reachable [OF reachable_initial run_empty_gallery] .

lemma step_Settle_failed:
  "try_block w = Some (Inl e) \<Longrightarrow>
   step mounted_sys (Settle 0 w) = Some failed_sys"
  by (simp add: mounted_sys_def failed_sys_def fetchInnovations_end_def)

lemma card_onKeyDown_selected:
  "selectedInnovation (card_onKeyDown key item a) =
     (if key = ''Enter'' \<or> key = '' '' then Some item else selectedInnovation a)"
  by (simp add: card_onKeyDown_def)

lemma handleKeyDown_selected:
  "selectedInnovation (handleKeyDown key a) =
     (if key = ''Escape'' then None else selectedInnovation a)"
  by (simp add: handleKeyDown_def)

lemma step_Click_card:
  "card_rendered (app s) i \<Longrightarrow>
   step s (Click_card i) = Some (s\<lparr>app := handleOpenModal (innovations (app s) ! i) (app s)\<rparr>)"
  by simp

lemma getEventKey_Escape:
  "ev_key ev = ''Escape'' \<Longrightarrow> getEventKey ev = ''Escape''"
  by (simp add: getEventKey_def normalizeKey_def)

lemma step_Keydown_Card_opens:
  assumes "card_rendered (app s) i"
    and "getEventKey ev = ''Enter'' \<or> getEventKey ev = '' ''"
  shows "\<exists>s'. step s (Keydown (Card i) ev) = Some s' \<and>
           selectedInnovation (app s') = Some (innovations (app s) ! i)"
proof -
  from assms(2) getEventKey_Escape [of ev] have "ev_key ev \<noteq> ''Escape''" by auto
  with assms show ?thesis
    by (simp add: Let_def card_onKeyDown_selected handleKeyDown_selected)
qed

lemma step_Keydown_Card_closes:
  assumes "modal_rendered (app s)" and "card_rendered (app s) i" and "ev_key ev = ''Escape''"
  shows "\<exists>s'. step s (Keydown (Card i) ev) = Some s' \<and> selectedInnovation (app s') = None"
  using assms by (simp add: Let_def handleKeyDown_selected)

lemma step_closes:
  assumes "modal_rendered (app s)"
  shows "\<exists>s'. step s Click_overlay = Some s' \<and> selectedInnovation (app s') = None"
    and "\<exists>s'. step s Click_close_button = Some s' \<and> selectedInnovation (app s') = None"
    and "ev_key ev = ''Escape'' \<Longrightarrow>
           \<exists>s'. step s (Keydown Elsewhere ev) = Some s' \<and> selectedInnovation (app s') = None"
  using assms by (simp_all add: handleKeyDown_selected)

lemma step_changes_selected:
  assumes "step s e = Some s'"
    and "selectedInnovation (app s') \<noteq> selectedInnovation (app s)"
  shows "(\<exists>i. e = Click_card i \<or>
            (\<exists>ev. e = Keydown (Card i) ev \<and>
               (getEventKey ev = ''Enter'' \<or> getEventKey ev = '' ''))) \<or>
         e = Click_overlay \<or> e = Click_close_button \<or>
         (\<exists>t ev. e = Keydown t ev \<and> ev_key ev = ''Escape'' \<and> modal_rendered (app s))"
proof (cases e)
  case Mount
  with assms show ?thesis by (auto split: if_splits)
next
  case (Settle k w)
  with assms show ?thesis by (auto split: if_splits option.splits)
next
  case Click_regenerate
  with assms show ?thesis by (auto split: if_splits)
next
  case (Click_card i)
  then show ?thesis by simp
next
  case (Keydown t ev)
  show ?thesis
  proof (cases t)
    case (Card i)
    show ?thesis
    proof (cases "getEventKey ev = ''Enter'' \<or> getEventKey ev = '' ''")
      case True
      with Keydown Card show ?thesis by blast
    next
      case False
      then have "card_onKeyDown (getEventKey ev) (innovations (app s) ! i) (app s) = app s"
        by (simp add: card_onKeyDown_def)
      with Keydown Card assms
      have "ev_key ev = ''Escape'' \<and> modal_rendered (app s)"
        by (auto simp: Let_def handleKeyDown_selected split: if_splits)
      with Keydown show ?thesis by blast
    qed
  next
    case Elsewhere
    with Keydown assms have "ev_key ev = ''Escape'' \<and> modal_rendered (app s)"
      by (auto simp: handleKeyDown_selected split: if_splits)
    with Keydown show ?thesis by blast
  qed
next
  case Click_overlay
  then show ?thesis by simp
next
  case Click_modal_content
  with assms show ?thesis by (auto split: if_splits)
next
  case Click_close_button
  then show ?thesis by simp
qed

lemma step_next_id:
  assumes "step s e = Some s'" and "mounted s" and "loading (app s)"
  shows "next_id s' = next_id s"
proof (cases e)
  case (Keydown t ev)
  with assms(1) show ?thesis
    by (cases t) (auto simp: Let_def split: if_splits)
qed (use assms in \<open>auto split: if_splits option.splits\<close>)

section \<open>The claims\<close>

text \<open>
  Claim C1. Whenever an invocation succeeds, whatever the order in which the image
  requests complete, the parsed value of Step 1 is an array of ideas, there are as many
  items as ideas, the item at every index carries the title and the description of the
  idea at that index, these items are what the state then holds, and no other
  completion order gives other items.
\<close>

theorem merge_preserves_order:
  assumes "try_block (w\<lparr>completion_order := order\<rparr>) = Some (Inr items)"
  shows "(\<exists>ideas. step1 w = Inr (JArr ideas) \<and> length items = length ideas \<and>
            (\<forall>i<length ideas.
               get_field (ideas ! i) Title = Inr (title (items ! i)) \<and>
               get_field (ideas ! i) Description = Inr (description (items ! i)))) \<and>
         innovations (fetchInnovations_end (Inr items) s) = items \<and>
         (\<forall>order' items'. try_block (w\<lparr>completion_order := order'\<rparr>) = Some (Inr items')
            \<longrightarrow> items' = items)"
proof (intro conjI allI impI)
  from try_block_Inr [OF assms] obtain ideas where
    s1: "step1 w = Inr (JArr ideas)" and
    cb: "map (\<lambda>i. idea_callback w i (ideas ! i)) [0..<length ideas] = map Fulfilled items"
    by auto
  from cb have len: "length items = length ideas"
    by (metis length_map length_upt minus_nat.diff_0)
  have "\<forall>i<length ideas. idea_callback w i (ideas ! i) = Fulfilled (items ! i)"
  proof (intro allI impI)
    fix i assume i: "i < length ideas"
    then have "map (\<lambda>i. idea_callback w i (ideas ! i)) [0..<length ideas] ! i
        = idea_callback w i (ideas ! i)" by simp
    with cb i len show "idea_callback w i (ideas ! i) = Fulfilled (items ! i)" by simp
  qed
  with s1 len
  show "\<exists>ideas. step1 w = Inr (JArr ideas) \<and> length items = length ideas \<and>
          (\<forall>i<length ideas.
             get_field (ideas ! i) Title = Inr (title (items ! i)) \<and>
             get_field (ideas ! i) Description = Inr (description (items ! i)))"
    by (auto dest: idea_callback_Fulfilled)
next
  show "innovations (fetchInnovations_end (Inr items) s) = items"
    by (simp add: fetchInnovations_end_def)
next
  fix order' items'
  assume other: "try_block (w\<lparr>completion_order := order'\<rparr>) = Some (Inr items')"
  from try_block_Inr [OF assms] obtain ideas where
    s1: "step1 w = Inr (JArr ideas)" and
    cb: "map (\<lambda>i. idea_callback w i (ideas ! i)) [0..<length ideas] = map Fulfilled items"
    by auto
  from try_block_Inr [OF other] obtain ideas' where
    s1': "step1 w = Inr (JArr ideas')" and
    cb': "map (\<lambda>i. idea_callback w i (ideas' ! i)) [0..<length ideas'] = map Fulfilled items'"
    by auto
  from s1 s1' have "ideas' = ideas" by simp
  with cb cb' have "map Fulfilled items' = map Fulfilled items" by simp
  then show "items' = items" by (simp add: inj_on_def inj_map_eq_map [OF injI])
qed

text \<open>
  Two ideas whose image requests complete in reverse order: the items are in the order
  of the ideas.
\<close>

theorem merge_preserves_order_witness:
  "try_block ((example_world (JArr [idea_sky, idea_reef]) by_index [])\<lparr>completion_order := [1, 0]\<rparr>)
     = Some (Inr [item_sky, item_reef]) \<and>
   step1 (example_world (JArr [idea_sky, idea_reef]) by_index []) = Inr (JArr [idea_sky, idea_reef]) \<and>
   get_field idea_sky Title = Inr (title item_sky) \<and>
   get_field idea_sky Description = Inr (description item_sky) \<and>
   get_field idea_reef Title = Inr (title item_reef) \<and>
   get_field idea_reef Description = Inr (description item_reef) \<and>
   innovations (fetchInnovations_end (Inr [item_sky, item_reef]) initial_state) = [item_sky, item_reef]"
proof -
  let ?w = "example_world (JArr [idea_sky, idea_reef]) by_index []"
  have h: "try_block (?w\<lparr>completion_order := [1, 0]\<rparr>) = Some (Inr [item_sky, item_reef])"
    by (simp add: pipeline_defs example_defs)
  have s1: "step1 ?w = Inr (JArr [idea_sky, idea_reef])"
    by (simp add: step1_def example_world_def)
  from merge_preserves_order [OF h, of initial_state] obtain ideas where
    i: "step1 ?w = Inr (JArr ideas)" and
    f: "\<forall>i<length ideas. get_field (ideas ! i) Title = Inr (title ([item_sky, item_reef] ! i)) \<and>
          get_field (ideas ! i) Description = Inr (description ([item_sky, item_reef] ! i))" and
    st: "innovations (fetchInnovations_end (Inr [item_sky, item_reef]) initial_state)
          = [item_sky, item_reef]"
    by blast
  from i s1 have ideas: "ideas = [idea_sky, idea_reef]" by simp
  have "(0::nat) < length ideas" and "(1::nat) < length ideas"
    using ideas by simp_all
  with f have "get_field (ideas ! 0) Title = Inr (title ([item_sky, item_reef] ! 0))"
    and "get_field (ideas ! 0) Description = Inr (description ([item_sky, item_reef] ! 0))"
    and "get_field (ideas ! 1) Title = Inr (title ([item_sky, item_reef] ! 1))"
    and "get_field (ideas ! 1) Description = Inr (description ([item_sky, item_reef] ! 1))"
    by blast+
  with ideas h s1 st show ?thesis by simp
qed

text \<open>
  Claim C2. If the image request of any one idea is rejected, the invocation never
  succeeds, whatever the order of completion, and it fails as soon as that rejection
  arrives, whether or not the other requests have completed. When it settles, the
  items in the state are the ones that were there before (nothing of this invocation is
  stored), \<open>error\<close> is the error message and \<open>loading\<close> is false.
\<close>

theorem image_failure_fails_invocation:
  assumes "step1 w = Inr (JArr ideas)" and "i < length ideas"
    and "get_field (ideas ! i) Image_prompt = Inr prompt"
    and "generateImages w i prompt = Rejected e"
  shows "(\<forall>items. try_block w \<noteq> Some (Inr items)) \<and>
         (i \<in> set (completion_order w) \<longrightarrow> (\<exists>e'. try_block w = Some (Inl e'))) \<and>
         (\<forall>s k s'. step s (Settle k w) = Some s' \<longrightarrow>
            innovations (app s') = innovations (app s) \<and>
            error (app s') = Some error_message \<and> \<not> loading (app s'))"
proof -
  have cb: "idea_callback w i (ideas ! i) = Rejected e"
    using assms(3,4) by (rule image_rejected_callback)
  have never: "\<forall>items. try_block w \<noteq> Some (Inr items)"
    using rejected_callback_never_succeeds [OF assms(1,2) cb] by blast
  have fails: "i \<in> set (completion_order w) \<longrightarrow> (\<exists>e'. try_block w = Some (Inl e'))"
  proof
    assume "i \<in> set (completion_order w)"
    then have "i \<in> set (settlement_order w (JArr ideas))"
      by (rule completion_order_settlement)
    with assms(1,2) cb show "\<exists>e'. try_block w = Some (Inl e')"
      by (rule rejected_callback_fails)
  qed
  have settle: "\<forall>s k s'. step s (Settle k w) = Some s' \<longrightarrow>
      innovations (app s') = innovations (app s) \<and>
      error (app s') = Some error_message \<and> \<not> loading (app s')"
  proof (intro allI impI)
    fix s k s'
    assume "step s (Settle k w) = Some s'"
    from this [THEN step_Settle [THEN iffD1]] obtain r where r: "try_block w = Some r"
      and s': "s' = s\<lparr>app := fetchInnovations_end r (app s), pending := removeAll k (pending s)\<rparr>"
      by blast
    from r never obtain e' where "r = Inl e'" by (cases r) auto
    with s' show "innovations (app s') = innovations (app s) \<and>
      error (app s') = Some error_message \<and> \<not> loading (app s')" by simp
  qed
  from never fails settle show ?thesis by blast
qed

text \<open>
  Two ideas; the image request of the second is rejected while that of the first is
  still pending: the invocation started at mount fails, and the page shows the error
  and no item.
\<close>

theorem image_failure_fails_invocation_witness:
  "step1 second_fails_first_pending = Inr (JArr [idea_sky, idea_reef]) \<and>
   (1::nat) < length [idea_sky, idea_reef] \<and>
   get_field ([idea_sky, idea_reef] ! 1) Image_prompt = Inr (JStr ''a printed reef'') \<and>
   generateImages second_fails_first_pending 1 (JStr ''a printed reef'')
     = Rejected Service_error \<and>
   completion_order second_fails_first_pending = [1] \<and>
   try_block second_fails_first_pending = Some (Inl Service_error) \<and>
   step mounted_sys (Settle 0 second_fails_first_pending) = Some failed_sys \<and>
   innovations (app failed_sys) = innovations (app mounted_sys) \<and>
   error (app failed_sys) = Some error_message \<and> \<not> loading (app failed_sys)"
proof -
  have h1: "step1 second_fails_first_pending = Inr (JArr [idea_sky, idea_reef])"
    by (simp add: second_fails_first_pending_def)
  have h2: "(1::nat) < length [idea_sky, idea_reef]" by simp
  have h3: "get_field ([idea_sky, idea_reef] ! 1) Image_prompt = Inr (JStr ''a printed reef'')"
    by (simp add: idea_reef_def)
  have h4: "generateImages second_fails_first_pending 1 (JStr ''a printed reef'')
      = Rejected Service_error"
    by (simp add: second_fails_first_pending_def example_world_def)
  have o: "completion_order second_fails_first_pending = [1]"
    by (simp add: second_fails_first_pending_def example_world_def)
  have r: "try_block second_fails_first_pending = Some (Inl Service_error)"
    by (simp add: second_fails_first_pending_def pipeline_defs example_defs)
  have st: "step mounted_sys (Settle 0 second_fails_first_pending) = Some failed_sys"
    by (simp add: r mounted_sys_def failed_sys_def fetchInnovations_end_def)
  note c = image_failure_fails_invocation [OF h1 h2 h3 h4]
  from c [THEN conjunct2, THEN conjunct1] o
  have "\<exists>e'. try_block second_fails_first_pending = Some (Inl e')" by simp
  from c [THEN conjunct2, THEN conjunct2, rule_format, OF st]
  have "innovations (app failed_sys) = innovations (app mounted_sys) \<and>
    error (app failed_sys) = Some error_message \<and> \<not> loading (app failed_sys)" .
  with h1 h2 h3 h4 o r st show ?thesis by (intro conjI) simp_all
qed

text \<open>
  Claim C3 fails as stated: the schema is sent with the request (lines 36 to 50) and is
  never checked on the response. An array whose one object lacks the required
  \<^verbatim>\<open>description\<close> violates the schema, and the invocation succeeds: the item is stored
  with an undefined description, and no error is set.
\<close>

theorem schema_not_checked_counterexample:
  "\<not> matches_schema (JArr [idea_partial]) \<and>
   step1 partial_idea_world = Inr (JArr [idea_partial]) \<and>
   try_block partial_idea_world = Some (Inr [item_partial]) \<and>
   step mounted_sys (Settle 0 partial_idea_world) =
     Some \<lparr>app = \<lparr>innovations = [item_partial], loading = False, error = None,
                   selectedInnovation = None\<rparr>,
           mounted = True, next_id = 1, pending = []\<rparr>"
proof -
  have r: "try_block partial_idea_world = Some (Inr [item_partial])"
    by (simp add: partial_idea_world_def item_partial_def pipeline_defs example_defs)
  have "\<not> matches_schema (JArr [idea_partial])"
    by (simp add: matches_schema_def has_string_def idea_partial_def)
  moreover have "step1 partial_idea_world = Inr (JArr [idea_partial])"
    by (simp add: partial_idea_world_def)
  moreover have "step mounted_sys (Settle 0 partial_idea_world) =
     Some \<lparr>app = \<lparr>innovations = [item_partial], loading = False, error = None,
                   selectedInnovation = None\<rparr>,
           mounted = True, next_id = 1, pending = []\<rparr>"
    by (simp add: r mounted_sys_def fetchInnovations_end_def)
  ultimately show ?thesis using r by simp
qed

text \<open>
  Claim C3, amended. When the text request is fulfilled with a body: if the body is not
  valid JSON the invocation fails with the syntax error; if it parses to a value that
  is not an array, or to an array with a null element, the invocation fails with a
  type error, whatever the image requests do. The schema itself is not checked: if the
  body parses to an array and the image of every element is generated, the invocation
  succeeds once every request has completed, whatever properties the elements have.
\<close>

theorem unusable_response_fails:
  assumes "new_GoogleGenAI w = None" and "generateContent w = Fulfilled (Some body)"
  shows "(JSON_parse w body = None \<longrightarrow> try_block w = Some (Inl Syntax_error)) \<and>
         (\<forall>v. JSON_parse w body = Some v \<and> (\<forall>ideas. v \<noteq> JArr ideas) \<longrightarrow>
            try_block w = Some (Inl Type_error)) \<and>
         (\<forall>ideas. JSON_parse w body = Some (JArr ideas) \<and> JNull \<in> set ideas \<longrightarrow>
            try_block w = Some (Inl Type_error)) \<and>
         (\<forall>ideas. JSON_parse w body = Some (JArr ideas) \<and>
            (\<forall>i<length ideas. image_generated w i (ideas ! i)) \<and>
            (\<forall>j<length ideas. j \<in> set (completion_order w)) \<longrightarrow>
            (\<exists>items. try_block w = Some (Inr items) \<and> length items = length ideas))"
proof (intro conjI allI impI)
  assume "JSON_parse w body = None"
  with step1_body [OF assms] show "try_block w = Some (Inl Syntax_error)"
    by (simp add: try_block_def)
next
  fix v assume "JSON_parse w body = Some v \<and> (\<forall>ideas. v \<noteq> JArr ideas)"
  with step1_body [OF assms] have "step1 w = Inr v" and "\<forall>ideas. v \<noteq> JArr ideas"
    by simp_all
  then show "try_block w = Some (Inl Type_error)" by (rule try_block_not_array)
next
  fix ideas
  assume h: "JSON_parse w body = Some (JArr ideas) \<and> JNull \<in> set ideas"
  with step1_body [OF assms] have "step1 w = Inr (JArr ideas)" and "JNull \<in> set ideas"
    by simp_all
  then show "try_block w = Some (Inl Type_error)" by (rule null_element_fails)
next
  fix ideas
  assume h: "JSON_parse w body = Some (JArr ideas) \<and>
    (\<forall>i<length ideas. image_generated w i (ideas ! i)) \<and>
    (\<forall>j<length ideas. j \<in> set (completion_order w))"
  with step1_body [OF assms] have s1: "step1 w = Inr (JArr ideas)" by simp
  from h have "\<forall>i<length ideas. image_generated w i (ideas ! i)"
    and "\<forall>j<length ideas. j \<in> set (completion_order w)" by blast+
  with s1 show "\<exists>items. try_block w = Some (Inr items) \<and> length items = length ideas"
    by (rule all_generated_succeeds)
qed

text \<open>
  A body that is not JSON; a body that parses to an object; an array with a null, of
  whose image requests none has completed.
\<close>

theorem unusable_response_fails_witness:
  "new_GoogleGenAI not_json_world = None \<and>
   generateContent not_json_world = Fulfilled (Some ''Here are 6 ideas'') \<and>
   JSON_parse not_json_world ''Here are 6 ideas'' = None \<and>
   try_block not_json_world = Some (Inl Syntax_error) \<and>
   new_GoogleGenAI object_world = None \<and>
   generateContent object_world = Fulfilled (Some ''body'') \<and>
   JSON_parse object_world ''body'' = Some (JObj [(''ideas'', JArr [idea_sky])]) \<and>
   try_block object_world = Some (Inl Type_error) \<and>
   new_GoogleGenAI null_element_world = None \<and>
   generateContent null_element_world = Fulfilled (Some ''body'') \<and>
   JSON_parse null_element_world ''body'' = Some (JArr [idea_sky, JNull]) \<and>
   JNull \<in> set [idea_sky, JNull] \<and>
   completion_order null_element_world = [] \<and>
   try_block null_element_world = Some (Inl Type_error)"
proof -
  have a1: "new_GoogleGenAI not_json_world = None"
    and a2: "generateContent not_json_world = Fulfilled (Some ''Here are 6 ideas'')"
    and a3: "JSON_parse not_json_world ''Here are 6 ideas'' = None"
    by (simp_all add: not_json_world_def)
  have b1: "new_GoogleGenAI object_world = None"
    and b2: "generateContent object_world = Fulfilled (Some ''body'')"
    and b3: "JSON_parse object_world ''body'' = Some (JObj [(''ideas'', JArr [idea_sky])])"
    by (simp_all add: object_world_def example_world_def)
  have c1: "new_GoogleGenAI null_element_world = None"
    and c2: "generateContent null_element_world = Fulfilled (Some ''body'')"
    and c3: "JSON_parse null_element_world ''body'' = Some (JArr [idea_sky, JNull])"
    and c5: "completion_order null_element_world = []"
    by (simp_all add: null_element_world_def example_world_def)
  have c4: "JNull \<in> set [idea_sky, JNull]" by simp
  from unusable_response_fails [OF a1 a2, THEN conjunct1, rule_format, OF a3]
  have a: "try_block not_json_world = Some (Inl Syntax_error)" .
  from unusable_response_fails [OF b1 b2, THEN conjunct2, THEN conjunct1, rule_format,
      of "JObj [(''ideas'', JArr [idea_sky])]"] b3
  have b: "try_block object_world = Some (Inl Type_error)" by simp
  from unusable_response_fails [OF c1 c2, THEN conjunct2, THEN conjunct2, THEN conjunct1,
      rule_format, of "[idea_sky, JNull]"] c3 c4
  have c: "try_block null_element_world = Some (Inl Type_error)" by simp
  from a1 a2 a3 a b1 b2 b3 b c1 c2 c3 c4 c5 c show ?thesis by (intro conjI)
qed

text \<open>
  Claim C4. When an invocation settles, \<open>loading\<close> is false afterwards, whether it
  succeeded or failed; and if it failed, whatever was thrown in Step 1 or Step 2,
  \<open>error\<close> is the one fixed message.
\<close>

theorem failure_sets_fixed_message:
  assumes "step s (Settle k w) = Some s'"
  shows "\<not> loading (app s') \<and>
         (\<forall>e. try_block w = Some (Inl e) \<longrightarrow>
            error (app s') =
              Some ''Failed to fetch innovations from the future. Please try again.'')"
proof -
  from assms [THEN step_Settle [THEN iffD1]] obtain r where r: "try_block w = Some r"
    and s': "s' = s\<lparr>app := fetchInnovations_end r (app s), pending := removeAll k (pending s)\<rparr>"
    by blast
  from s' have "\<not> loading (app s')" by simp
  moreover have "\<forall>e. try_block w = Some (Inl e) \<longrightarrow>
      error (app s') = Some ''Failed to fetch innovations from the future. Please try again.''"
    using r s' by (auto simp: error_message_def)
  ultimately show ?thesis by blast
qed

text \<open>
  A missing credential, a rejected text request, a body that is not JSON and a rejected
  image request all end in the same state; a success ends with \<open>loading\<close> false too.
\<close>

theorem failure_sets_fixed_message_witness:
  "step mounted_sys (Settle 0 no_credential_world) = Some failed_sys \<and>
   try_block no_credential_world = Some (Inl Config_error) \<and>
   step mounted_sys (Settle 0 text_rejected_world) = Some failed_sys \<and>
   try_block text_rejected_world = Some (Inl Service_error) \<and>
   step mounted_sys (Settle 0 not_json_world) = Some failed_sys \<and>
   try_block not_json_world = Some (Inl Syntax_error) \<and>
   step mounted_sys (Settle 0 second_image_fails) = Some failed_sys \<and>
   try_block second_image_fails = Some (Inl Service_error) \<and>
   \<not> loading (app failed_sys) \<and>
   error (app failed_sys) =
     Some ''Failed to fetch innovations from the future. Please try again.'' \<and>
   step mounted_sys (Settle 0 two_ideas_world) = Some loaded_sys \<and>
   \<not> loading (app loaded_sys)"
proof -
  note s1 = step_Settle_failed [OF no_credential_world_result]
  note s2 = step_Settle_failed [OF text_rejected_world_result]
  note s3 = step_Settle_failed [OF not_json_world_result]
  note s4 = step_Settle_failed [OF second_image_fails_result]
  have s5: "step mounted_sys (Settle 0 two_ideas_world) = Some loaded_sys"
    by (simp add: two_ideas_world_result mounted_sys_def loaded_sys_def fetchInnovations_end_def)
  note f = failure_sets_fixed_message [OF s1]
  from f have l: "\<not> loading (app failed_sys)" by (rule conjunct1)
  from f [THEN conjunct2, rule_format, OF no_credential_world_result]
  have e: "error (app failed_sys) =
     Some ''Failed to fetch innovations from the future. Please try again.''" .
  from failure_sets_fixed_message [OF s5] have l5: "\<not> loading (app loaded_sys)"
    by (rule conjunct1)
  from s1 s2 s3 s4 s5 l e l5 no_credential_world_result text_rejected_world_result
    not_json_world_result second_image_fails_result
  show ?thesis by (intro conjI)
qed

text \<open>
  Claim C5. In every state reachable from the initial state by the transitions of the
  page (the mount effect, a regeneration, the settlement of an invocation as a success
  or as a failure, opening a card, closing the modal), the items are non-empty only
  when \<open>loading\<close> is false and \<open>error\<close> is none.
\<close>

theorem items_only_when_loaded:
  assumes "reachable s" and "innovations (app s) \<noteq> []"
  shows "\<not> loading (app s) \<and> error (app s) = None"
  using reachable_view_invariant [OF assms(1)] assms(2)
  by (auto simp: view_invariant_def)

text \<open>The state after a successful load: reachable, with two items.\<close>

theorem items_only_when_loaded_witness:
  "reachable loaded_sys \<and> innovations (app loaded_sys) \<noteq> [] \<and>
   \<not> loading (app loaded_sys) \<and> error (app loaded_sys) = None"
proof -
  have ne: "innovations (app loaded_sys) \<noteq> []" by (simp add: loaded_sys_def)
  from items_only_when_loaded [OF reachable_loaded ne] reachable_loaded ne
  show ?thesis by simp
qed

text \<open>
  Claim C6. A click on a rendered card, and a \<^verbatim>\<open>keydown\<close> on it that React reports as
  Enter or as Space, set \<open>selectedInnovation\<close> to the item of that card. While the
  modal is rendered, a click on the overlay, a click on the close button and a
  \<^verbatim>\<open>keydown\<close> of Escape, on a card or anywhere else, each set it to none. No other event
  changes \<open>selectedInnovation\<close>.
\<close>

theorem selection_transitions:
  "(\<forall>i. card_rendered (app s) i \<longrightarrow>
      (\<exists>s'. step s (Click_card i) = Some s' \<and>
         selectedInnovation (app s') = Some (innovations (app s) ! i)) \<and>
      (\<forall>ev. getEventKey ev = ''Enter'' \<or> getEventKey ev = '' '' \<longrightarrow>
         (\<exists>s'. step s (Keydown (Card i) ev) = Some s' \<and>
            selectedInnovation (app s') = Some (innovations (app s) ! i)))) \<and>
   (modal_rendered (app s) \<longrightarrow>
      (\<exists>s'. step s Click_overlay = Some s' \<and> selectedInnovation (app s') = None) \<and>
      (\<exists>s'. step s Click_close_button = Some s' \<and> selectedInnovation (app s') = None) \<and>
      (\<forall>ev. ev_key ev = ''Escape'' \<longrightarrow>
         (\<exists>s'. step s (Keydown Elsewhere ev) = Some s' \<and>
            selectedInnovation (app s') = None) \<and>
         (\<forall>i. card_rendered (app s) i \<longrightarrow>
            (\<exists>s'. step s (Keydown (Card i) ev) = Some s' \<and>
               selectedInnovation (app s') = None)))) \<and>
   (\<forall>e s'. step s e = Some s' \<and> selectedInnovation (app s') \<noteq> selectedInnovation (app s) \<longrightarrow>
      (\<exists>i. e = Click_card i \<or>
         (\<exists>ev. e = Keydown (Card i) ev \<and>
            (getEventKey ev = ''Enter'' \<or> getEventKey ev = '' ''))) \<or>
      e = Click_overlay \<or> e = Click_close_button \<or>
      (\<exists>t ev. e = Keydown t ev \<and> ev_key ev = ''Escape'' \<and> modal_rendered (app s)))"
proof (intro conjI allI impI)
  fix i assume r: "card_rendered (app s) i"
  from step_Click_card [OF r]
  show "\<exists>s'. step s (Click_card i) = Some s' \<and>
      selectedInnovation (app s') = Some (innovations (app s) ! i)" by simp
next
  fix i ev
  assume "card_rendered (app s) i" and "getEventKey ev = ''Enter'' \<or> getEventKey ev = '' ''"
  then show "\<exists>s'. step s (Keydown (Card i) ev) = Some s' \<and>
      selectedInnovation (app s') = Some (innovations (app s) ! i)"
    by (rule step_Keydown_Card_opens)
next
  assume "modal_rendered (app s)"
  then show "\<exists>s'. step s Click_overlay = Some s' \<and> selectedInnovation (app s') = None"
    by (rule step_closes(1))
next
  assume "modal_rendered (app s)"
  then show "\<exists>s'. step s Click_close_button = Some s' \<and> selectedInnovation (app s') = None"
    by (rule step_closes(2))
next
  fix ev :: KeyboardEvent
  assume "modal_rendered (app s)" and "ev_key ev = ''Escape''"
  then show "\<exists>s'. step s (Keydown Elsewhere ev) = Some s' \<and>
      selectedInnovation (app s') = None"
    by (rule step_closes(3))
next
  fix ev :: KeyboardEvent and i
  assume "modal_rendered (app s)" and "ev_key ev = ''Escape''" and "card_rendered (app s) i"
  then show "\<exists>s'. step s (Keydown (Card i) ev) = Some s' \<and>
      selectedInnovation (app s') = None"
    by (simp only: step_Keydown_Card_closes)
next
  fix e s'
  assume "step s e = Some s' \<and> selectedInnovation (app s') \<noteq> selectedInnovation (app s)"
  then show "(\<exists>i. e = Click_card i \<or>
         (\<exists>ev. e = Keydown (Card i) ev \<and>
            (getEventKey ev = ''Enter'' \<or> getEventKey ev = '' ''))) \<or>
      e = Click_overlay \<or> e = Click_close_button \<or>
      (\<exists>t ev. e = Keydown t ev \<and> ev_key ev = ''Escape'' \<and> modal_rendered (app s))"
    using step_changes_selected by blast
qed

text \<open>
  On the loaded page the second card is opened by a click, by Enter, by Space, by the
  old name of Space and by a key that only its code identifies as Enter; the open modal
  is closed by the overlay, by the close button, and by Escape pressed on the opened
  card or elsewhere.
\<close>

theorem selection_transitions_witness:
  "card_rendered (app loaded_sys) 1 \<and>
   step loaded_sys (Click_card 1) = Some modal_sys \<and>
   getEventKey \<lparr>ev_key = ''Enter'', ev_keyCode = 13\<rparr> = ''Enter'' \<and>
   step loaded_sys (Keydown (Card 1) \<lparr>ev_key = ''Enter'', ev_keyCode = 13\<rparr>) = Some modal_sys \<and>
   getEventKey \<lparr>ev_key = '' '', ev_keyCode = 32\<rparr> = '' '' \<and>
   step loaded_sys (Keydown (Card 1) \<lparr>ev_key = '' '', ev_keyCode = 32\<rparr>) = Some modal_sys \<and>
   getEventKey \<lparr>ev_key = ''Spacebar'', ev_keyCode = 32\<rparr> = '' '' \<and>
   step loaded_sys (Keydown (Card 1) \<lparr>ev_key = ''Spacebar'', ev_keyCode = 32\<rparr>) = Some modal_sys \<and>
   getEventKey \<lparr>ev_key = ''Unidentified'', ev_keyCode = 13\<rparr> = ''Enter'' \<and>
   step loaded_sys (Keydown (Card 1) \<lparr>ev_key = ''Unidentified'', ev_keyCode = 13\<rparr>)
     = Some modal_sys \<and>
   selectedInnovation (app modal_sys) = Some (innovations (app loaded_sys) ! 1) \<and>
   modal_rendered (app modal_sys) \<and> card_rendered (app modal_sys) 1 \<and>
   step modal_sys Click_overlay = Some loaded_sys \<and>
   step modal_sys Click_close_button = Some loaded_sys \<and>
   step modal_sys (Keydown Elsewhere \<lparr>ev_key = ''Escape'', ev_keyCode = 27\<rparr>) = Some loaded_sys \<and>
   step modal_sys (Keydown (Card 1) \<lparr>ev_key = ''Escape'', ev_keyCode = 27\<rparr>) = Some loaded_sys \<and>
   selectedInnovation (app loaded_sys) = None"
proof -
  have r: "card_rendered (app loaded_sys) 1"
    by (simp add: card_rendered_def truthy_def loaded_sys_def)
  have r': "card_rendered (app modal_sys) 1"
    by (simp add: card_rendered_def truthy_def modal_sys_def)
  have m: "modal_rendered (app modal_sys)"
    by (simp add: modal_rendered_def modal_sys_def)
  have k1: "getEventKey \<lparr>ev_key = ''Enter'', ev_keyCode = 13\<rparr> = ''Enter''"
    and k2: "getEventKey \<lparr>ev_key = '' '', ev_keyCode = 32\<rparr> = '' ''"
    and k3: "getEventKey \<lparr>ev_key = ''Spacebar'', ev_keyCode = 32\<rparr> = '' ''"
    and k4: "getEventKey \<lparr>ev_key = ''Unidentified'', ev_keyCode = 13\<rparr> = ''Enter''"
    and k5: "getEventKey \<lparr>ev_key = ''Escape'', ev_keyCode = 27\<rparr> = ''Escape''"
    by (simp_all add: getEventKey_def normalizeKey_def translateToKey_def)
  have o1: "step loaded_sys (Click_card 1) = Some modal_sys"
    by (simp add: card_rendered_def truthy_def loaded_sys_def modal_sys_def handleOpenModal_def)
  have o2: "step loaded_sys (Keydown (Card 1) \<lparr>ev_key = ''Enter'', ev_keyCode = 13\<rparr>)
      = Some modal_sys"
    by (simp add: k1 card_rendered_def truthy_def modal_rendered_def loaded_sys_def
        modal_sys_def card_onKeyDown_def handleOpenModal_def)
  have o3: "step loaded_sys (Keydown (Card 1) \<lparr>ev_key = '' '', ev_keyCode = 32\<rparr>)
      = Some modal_sys"
    by (simp add: k2 card_rendered_def truthy_def modal_rendered_def loaded_sys_def
        modal_sys_def card_onKeyDown_def handleOpenModal_def)
  have o4: "step loaded_sys (Keydown (Card 1) \<lparr>ev_key = ''Spacebar'', ev_keyCode = 32\<rparr>)
      = Some modal_sys"
    by (simp add: k3 card_rendered_def truthy_def modal_rendered_def loaded_sys_def
        modal_sys_def card_onKeyDown_def handleOpenModal_def)
  have o5: "step loaded_sys (Keydown (Card 1) \<lparr>ev_key = ''Unidentified'', ev_keyCode = 13\<rparr>)
      = Some modal_sys"
    by (simp add: k4 card_rendered_def truthy_def modal_rendered_def loaded_sys_def
        modal_sys_def card_onKeyDown_def handleOpenModal_def)
  have c1: "step modal_sys Click_overlay = Some loaded_sys"
    by (simp add: modal_rendered_def loaded_sys_def modal_sys_def handleCloseModal_def)
  have c2: "step modal_sys Click_close_button = Some loaded_sys"
    by (simp add: modal_rendered_def loaded_sys_def modal_sys_def handleCloseModal_def)
  have c3: "step modal_sys (Keydown Elsewhere \<lparr>ev_key = ''Escape'', ev_keyCode = 27\<rparr>)
      = Some loaded_sys"
    by (simp add: modal_rendered_def loaded_sys_def modal_sys_def handleKeyDown_def
        handleCloseModal_def)
  have c4: "step modal_sys (Keydown (Card 1) \<lparr>ev_key = ''Escape'', ev_keyCode = 27\<rparr>)
      = Some loaded_sys"
    by (simp add: k5 card_rendered_def truthy_def modal_rendered_def loaded_sys_def
        modal_sys_def card_onKeyDown_def handleKeyDown_def handleCloseModal_def)
  from selection_transitions [of loaded_sys, THEN conjunct1, rule_format, OF r,
      THEN conjunct1] o1
  have s: "selectedInnovation (app modal_sys) = Some (innovations (app loaded_sys) ! 1)"
    by simp
  from selection_transitions [of modal_sys, THEN conjunct2, THEN conjunct1, rule_format, OF m,
      THEN conjunct1] c1
  have n: "selectedInnovation (app loaded_sys) = None"
    by simp
  from r o1 k1 o2 k2 o3 k3 o4 k4 o5 s m r' c1 c2 c3 c4 n show ?thesis by (intro conjI)
qed

text \<open>
  Claim C7. While \<open>loading\<close> is true the regenerate button does nothing. Otherwise a
  click on it clears the items, sets \<open>loading\<close>, resets \<open>error\<close> and starts a new
  invocation, which settles with the outcome of the whole pipeline.
\<close>

theorem regenerate_control:
  "(loading (app s) \<longrightarrow> step s Click_regenerate = None) \<and>
   (\<not> loading (app s) \<longrightarrow>
      (\<exists>s'. step s Click_regenerate = Some s' \<and>
         innovations (app s') = [] \<and> loading (app s') \<and> error (app s') = None \<and>
         pending s' = pending s @ [next_id s] \<and>
         (\<forall>w r. try_block w = Some r \<longrightarrow>
            step s' (Settle (next_id s) w) =
              Some (s'\<lparr>app := fetchInnovations_end r (app s'),
                       pending := removeAll (next_id s) (pending s')\<rparr>))))"
  by simp

text \<open>
  The button is dead on the page that is loading after the mount; on the loaded page it
  empties the gallery and starts invocation 1, which then settles.
\<close>

theorem regenerate_control_witness:
  "loading (app mounted_sys) \<and> step mounted_sys Click_regenerate = None \<and>
   \<not> loading (app loaded_sys) \<and> step loaded_sys Click_regenerate = Some regenerating_sys \<and>
   innovations (app regenerating_sys) = [] \<and> loading (app regenerating_sys) \<and>
   pending regenerating_sys = pending loaded_sys @ [next_id loaded_sys] \<and>
   step regenerating_sys (Settle 1 two_ideas_world) = Some (loaded_sys\<lparr>next_id := 2\<rparr>)"
proof -
  have l: "loading (app mounted_sys)" by (simp add: mounted_sys_def)
  have n: "\<not> loading (app loaded_sys)" by (simp add: loaded_sys_def)
  have g: "step loaded_sys Click_regenerate = Some regenerating_sys"
    by (simp add: loaded_sys_def regenerating_sys_def start_invocation_def handleRegenerate_def
        fetchInnovations_begin_def)
  have f: "innovations (app regenerating_sys) = [] \<and> loading (app regenerating_sys) \<and>
      pending regenerating_sys = pending loaded_sys @ [next_id loaded_sys]"
    by (simp add: regenerating_sys_def loaded_sys_def)
  have st: "step regenerating_sys (Settle 1 two_ideas_world) = Some (loaded_sys\<lparr>next_id := 2\<rparr>)"
    by (simp add: two_ideas_world_result regenerating_sys_def loaded_sys_def
        fetchInnovations_end_def)
  from regenerate_control [of mounted_sys, THEN conjunct1] l
  have d: "step mounted_sys Click_regenerate = None" by simp
  from l d n g f st show ?thesis by (intro conjI) simp_all
qed

text \<open>
  Claim C8. On the page a regeneration is never triggered while an invocation is in
  flight: in every reachable state at most one invocation is in flight, and while there
  is one the regenerate button does nothing and no event starts another. So an
  invocation that settles is the one triggered last; its outcome is what the state then
  reflects, and nothing is left in flight whose result could be merged afterwards.
\<close>

theorem single_invocation_in_flight:
  assumes "reachable s"
  shows "length (pending s) \<le> 1 \<and>
         (pending s \<noteq> [] \<longrightarrow> step s Click_regenerate = None) \<and>
         (\<forall>k w s'. step s (Settle k w) = Some s' \<longrightarrow>
            Suc k = next_id s \<and> pending s' = [] \<and>
            (\<exists>r. try_block w = Some r \<and> app s' = fetchInnovations_end r (app s))) \<and>
         (\<forall>e s'. pending s \<noteq> [] \<and> step s e = Some s' \<longrightarrow> next_id s' = next_id s)"
proof (intro conjI allI impI)
  note inv = reachable_view_invariant [OF assms]
  from inv show "length (pending s) \<le> 1"
    by (auto simp: view_invariant_def)
  {
    assume "pending s \<noteq> []"
    with inv have "loading (app s)" by (simp add: view_invariant_def)
    then show "step s Click_regenerate = None" by simp
  }
  {
    fix k w s'
    assume st: "step s (Settle k w) = Some s'"
    from st [THEN step_Settle [THEN iffD1]] obtain r where k: "k \<in> set (pending s)"
      and r: "try_block w = Some r"
      and s': "s' = s\<lparr>app := fetchInnovations_end r (app s), pending := removeAll k (pending s)\<rparr>"
      by blast
    from inv k have p: "pending s = [k]" and n: "Suc k = next_id s"
      by (auto simp: view_invariant_def)
    from n show "Suc k = next_id s" .
    from s' p show "pending s' = []" by simp
    from r s' show "\<exists>r. try_block w = Some r \<and> app s' = fetchInnovations_end r (app s)"
      by simp
  }
  {
    fix e s'
    assume h: "pending s \<noteq> [] \<and> step s e = Some s'"
    with inv have m: "mounted s" and l: "loading (app s)"
      by (auto simp: view_invariant_def)
    from h have "step s e = Some s'" by simp
    from this m l show "next_id s' = next_id s" by (rule step_next_id)
  }
qed

text \<open>
  After the mount one invocation is in flight; the button does nothing; the invocation
  that settles is number 0, the one started last.
\<close>

theorem single_invocation_in_flight_witness:
  "reachable mounted_sys \<and> pending mounted_sys = [0] \<and>
   step mounted_sys Click_regenerate = None \<and>
   step mounted_sys (Settle 0 two_ideas_world) = Some loaded_sys \<and>
   Suc 0 = next_id mounted_sys \<and> pending loaded_sys = [] \<and>
   next_id loaded_sys = next_id mounted_sys"
proof -
  have p: "pending mounted_sys = [0]" by (simp add: mounted_sys_def)
  have st: "step mounted_sys (Settle 0 two_ideas_world) = Some loaded_sys"
    by (simp add: two_ideas_world_result mounted_sys_def loaded_sys_def fetchInnovations_end_def)
  note c = single_invocation_in_flight [OF reachable_mounted]
  from c p have d: "step mounted_sys Click_regenerate = None" by simp
  from c [THEN conjunct2, THEN conjunct2, THEN conjunct1, rule_format, OF st]
  have l: "Suc 0 = next_id mounted_sys \<and> pending loaded_sys = []" by blast
  from p have "pending mounted_sys \<noteq> [] \<and>
      step mounted_sys (Settle 0 two_ideas_world) = Some loaded_sys"
    using st by simp
  from c [THEN conjunct2, THEN conjunct2, THEN conjunct2, rule_format, OF this]
  have "next_id loaded_sys = next_id mounted_sys" .
  with reachable_mounted p d st l show ?thesis by (intro conjI) simp_all
qed

text \<open>
  Claim C9. The number of ideas is not checked: whenever Step 1 yields an array of
  ideas, of any length, the image of each idea is generated and every promise settles,
  the invocation succeeds with as many items as there are ideas, and these are stored
  with no error. In particular the page can reach a loaded state with no item and
  no error.
\<close>

theorem no_count_check:
  assumes "step1 w = Inr (JArr ideas)"
    and "\<forall>i<length ideas. image_generated w i (ideas ! i)"
    and "\<forall>j<length ideas. j \<in> set (completion_order w)"
  shows "(\<exists>items. try_block w = Some (Inr items) \<and> length items = length ideas \<and>
            innovations (fetchInnovations_end (Inr items) (fetchInnovations_begin a)) = items \<and>
            error (fetchInnovations_end (Inr items) (fetchInnovations_begin a)) = None \<and>
            \<not> loading (fetchInnovations_end (Inr items) (fetchInnovations_begin a))) \<and>
         (\<exists>s. reachable s \<and> mounted s \<and> pending s = [] \<and> \<not> loading (app s) \<and>
            error (app s) = None \<and> innovations (app s) = [])"
proof
  from all_generated_succeeds [OF assms] obtain items where
    "try_block w = Some (Inr items)" and "length items = length ideas" by blast
  then show "\<exists>items. try_block w = Some (Inr items) \<and> length items = length ideas \<and>
            innovations (fetchInnovations_end (Inr items) (fetchInnovations_begin a)) = items \<and>
            error (fetchInnovations_end (Inr items) (fetchInnovations_begin a)) = None \<and>
            \<not> loading (fetchInnovations_end (Inr items) (fetchInnovations_begin a))"
    by simp
next
  have "mounted empty_gallery_sys \<and> pending empty_gallery_sys = [] \<and>
      \<not> loading (app empty_gallery_sys) \<and> error (app empty_gallery_sys) = None \<and>
      innovations (app empty_gallery_sys) = []"
    by (simp add: empty_gallery_sys_def)
  with reachable_empty_gallery
  show "\<exists>s. reachable s \<and> mounted s \<and> pending s = [] \<and> \<not> loading (app s) \<and>
            error (app s) = None \<and> innovations (app s) = []"
    by blast
qed

text \<open>Two ideas give two items; no idea gives the empty gallery.\<close>

theorem no_count_check_witness:
  "step1 two_ideas_world = Inr (JArr [idea_sky, idea_reef]) \<and>
   image_generated two_ideas_world 0 idea_sky \<and>
   image_generated two_ideas_world 1 idea_reef \<and>
   set (completion_order two_ideas_world) = {0, 1} \<and>
   (\<exists>items. try_block two_ideas_world = Some (Inr items) \<and> length items = 2) \<and>
   step1 no_ideas_world = Inr (JArr []) \<and>
   (\<exists>items. try_block no_ideas_world = Some (Inr items) \<and> length items = 0) \<and>
   run initial_sys [Mount, Settle 0 no_ideas_world] = Some empty_gallery_sys"
proof -
  have h1: "step1 two_ideas_world = Inr (JArr [idea_sky, idea_reef])"
    by (simp add: two_ideas_world_def)
  have g0: "image_generated two_ideas_world 0 idea_sky"
    and g1: "image_generated two_ideas_world 1 idea_reef"
    by (simp_all add: image_generated_def two_ideas_world_def first_imageBytes_def example_defs)
  have o: "set (completion_order two_ideas_world) = {0, 1}"
    by (auto simp: two_ideas_world_def example_world_def)
  have h2: "\<forall>i<length [idea_sky, idea_reef]. image_generated two_ideas_world i ([idea_sky, idea_reef] ! i)"
    using g0 g1 by (simp add: less_Suc_eq)
  have h3: "\<forall>j<length [idea_sky, idea_reef]. j \<in> set (completion_order two_ideas_world)"
    using o by (simp add: less_Suc_eq)
  have e1: "step1 no_ideas_world = Inr (JArr [])"
    by (simp add: no_ideas_world_def)
  from no_count_check [OF h1 h2 h3, of initial_state, THEN conjunct1]
  have two: "\<exists>items. try_block two_ideas_world = Some (Inr items) \<and> length items = 2"
    by auto
  from no_count_check [OF e1, of initial_state, THEN conjunct1]
  have none: "\<exists>items. try_block no_ideas_world = Some (Inr items) \<and> length items = 0"
    by auto
  from h1 g0 g1 o two e1 none run_empty_gallery show ?thesis by (intro conjI)
qed

text \<open>
  Claim C10. The failure path leaves the items as they are, and sets only \<open>error\<close> and
  \<open>loading\<close>; the start of an invocation leaves the items as they are too, and resets
  \<open>error\<close> to none. That a failed state has no items is due to the callers: the
  initial state has none, and the regenerate handler clears them before the invocation
  starts.
\<close>

theorem failure_keeps_items:
  "innovations (fetchInnovations_end (Inl e) a) = innovations a \<and>
   selectedInnovation (fetchInnovations_end (Inl e) a) = selectedInnovation a \<and>
   error (fetchInnovations_end (Inl e) a) = Some error_message \<and>
   \<not> loading (fetchInnovations_end (Inl e) a) \<and>
   innovations (fetchInnovations_begin a) = innovations a \<and>
   error (fetchInnovations_begin a) = None \<and>
   loading (fetchInnovations_begin a) \<and>
   innovations (fetchInnovations_end (Inl e) (fetchInnovations_begin a)) = innovations a \<and>
   innovations initial_state = [] \<and>
   innovations (handleRegenerate a) = [] \<and>
   error (handleRegenerate a) = None"
  by (simp add: initial_state_def)

text \<open>
  Run on a state that holds two items and an old error, a failing invocation first
  drops the error and in the end still holds the two items.
\<close>

theorem failure_keeps_items_witness:
  "error (fetchInnovations_begin ((app loaded_sys)\<lparr>error := Some ''old''\<rparr>)) = None \<and>
   innovations (fetchInnovations_end (Inl Service_error)
      (fetchInnovations_begin ((app loaded_sys)\<lparr>error := Some ''old''\<rparr>)))
     = [item_sky, item_reef] \<and>
   innovations (handleRegenerate (app loaded_sys)) = []"
  using failure_keeps_items [of Service_error "(app loaded_sys)\<lparr>error := Some ''old''\<rparr>"]
    failure_keeps_items [of Service_error "app loaded_sys"]
  by (simp add: loaded_sys_def)

end
